theory Spec2Isabelle
  imports Complex_Main "HOL-Library.Log_Nat"
begin

section \<open>Data model\<close>

text \<open>
  A pixel is an object with four integer attributes. The filters read and assign the
  attributes of the objects held by the grid; the grid is a list of rows, each a list of
  pixels. The model passes the grid as a value and returns the grid the caller sees
  afterwards. Every grid cell is taken to hold its own pixel object (no object occurs at
  two positions), as in a grid built by the image loader; flip and transpose only permute
  the objects, and blur creates fresh ones, so the filters keep that property.
\<close>

record pixel =
  red :: int
  green :: int
  blue :: int
  alpha :: int

type_synonym grid = "pixel list list"

text \<open>The exceptions the filters can raise.\<close>

datatype error = IndexError | ZeroDivisionError | ValueError | AssertionError

text \<open>
  The outcome of a call: the value returned or the exception raised, together with the
  grid as the call leaves it.
\<close>

datatype outcome = Returned bool | Raised error

text \<open>
  \<open>introcs.RGB(r, g, b, a)\<close> creates a pixel. The class belongs to an external library; it
  accepts integers from 0 to 255, and the attributes of a pixel accept the same values.
  The record does not enforce the range: \<open>valid_pixel\<close> states it where it matters.
\<close>

definition RGB :: "int \<Rightarrow> int \<Rightarrow> int \<Rightarrow> int \<Rightarrow> pixel" where
  "RGB r g b a = \<lparr>red = r, green = g, blue = b, alpha = a\<rparr>"

definition valid_pixel :: "pixel \<Rightarrow> bool" where
  "valid_pixel p \<longleftrightarrow>
     0 \<le> red p \<and> red p \<le> 255 \<and> 0 \<le> green p \<and> green p \<le> 255 \<and>
     0 \<le> blue p \<and> blue p \<le> 255 \<and> 0 \<le> alpha p \<and> alpha p \<le> 255"

definition well_formed :: "grid \<Rightarrow> bool" where
  "well_formed g \<longleftrightarrow> g \<noteq> [] \<and> hd g \<noteq> [] \<and> (\<forall>row \<in> set g. length row = length (hd g))"

section \<open>Floating-point arithmetic\<close>

text \<open>
  Python floats are IEEE 754 binary64 numbers. A finite float is modelled by the rational
  number it denotes, and each operation returns the exact result rounded to the nearest
  number with a 53-bit significand, ties to the even significand. Overflow and subnormal
  numbers are not modelled: every float the filters compute from channels in 0..255 is
  zero or has a magnitude between 1/10 and 2^17.
\<close>

definition pow2 :: "int \<Rightarrow> rat" where
  "pow2 e = (if 0 \<le> e then 2 ^ nat e else 1 / 2 ^ nat (- e))"

text \<open>For \<open>q > 0\<close>, the exponent \<open>e\<close> with \<open>2^e \<le> q < 2^(e+1)\<close>.\<close>

definition expo :: "rat \<Rightarrow> int" where
  "expo q = (if 1 \<le> q then int (floorlog 2 (nat \<lfloor>q\<rfloor>)) - 1
             else - int (floorlog 2 (nat (\<lceil>1 / q\<rceil> - 1))))"

definition round_even :: "rat \<Rightarrow> int" where
  "round_even x =
     (let f = \<lfloor>x\<rfloor>; d = x - of_int f
      in if d < 1 / 2 then f else if 1 / 2 < d then f + 1 else if even f then f else f + 1)"

definition rnd :: "rat \<Rightarrow> rat" where
  "rnd q =
     (if q = 0 then 0
      else let u = pow2 (expo \<bar>q\<bar> - 52)
           in sgn q * of_int (round_even (\<bar>q\<bar> / u)) * u)"

definition fadd :: "rat \<Rightarrow> rat \<Rightarrow> rat" where
  "fadd x y = rnd (x + y)"

definition fsub :: "rat \<Rightarrow> rat \<Rightarrow> rat" where
  "fsub x y = rnd (x - y)"

definition fmul :: "rat \<Rightarrow> rat \<Rightarrow> rat" where
  "fmul x y = rnd (x * y)"

text \<open>\<open>int(x)\<close> of a float truncates towards zero.\<close>

definition trunc :: "rat \<Rightarrow> int" where
  "trunc x = (if 0 \<le> x then \<lfloor>x\<rfloor> else \<lceil>x\<rceil>)"

section \<open>mono\<close>

text \<open>
  \<open>brightness = int(0.3 * pixel.red + 0.6 * pixel.green + 0.1 * pixel.blue)\<close>: the
  literals are the floats nearest to 3/10, 6/10 and 1/10, the channels are converted
  exactly, and the sum is evaluated left to right.
\<close>

definition brightness :: "pixel \<Rightarrow> int" where
  "brightness p =
     trunc (fadd (fadd (fmul (rnd (3 / 10)) (of_int (red p)))
                       (fmul (rnd (6 / 10)) (of_int (green p))))
                 (fmul (rnd (1 / 10)) (of_int (blue p))))"

definition mono_pixel :: "bool \<Rightarrow> pixel \<Rightarrow> pixel" where
  "mono_pixel sepia p =
     (let b = brightness p;
          p1 = p\<lparr>red := min b 255, green := min b 255, blue := min b 255\<rparr>
      in if sepia
         then p1\<lparr>green := min (trunc (fmul (rnd (6 / 10)) (of_int b))) 255,
                 blue := min (trunc (fmul (rnd (4 / 10)) (of_int b))) 255\<rparr>
         else p1)"

text \<open>
  The loops of mono visit every pixel of every row once, whatever the rows' lengths, and
  index nothing. The parameter \<open>sepia\<close> is a bool here, so the assertion on its type
  holds.
\<close>

definition mono :: "grid \<Rightarrow> bool \<Rightarrow> outcome \<times> grid" where
  "mono img sepia = (Returned True, map (map (mono_pixel sepia)) img)"

section \<open>Lists, ranges and loops\<close>

text \<open>Sequencing of computations that may raise.\<close>

definition ebind :: "error + 'a \<Rightarrow> ('a \<Rightarrow> error + 'b) \<Rightarrow> error + 'b" where
  "ebind m f = (case m of Inl e \<Rightarrow> Inl e | Inr x \<Rightarrow> f x)"

text \<open>\<open>xs[i]\<close>: a negative index counts from the end, an index out of range raises.\<close>

definition getitem :: "'a list \<Rightarrow> int \<Rightarrow> error + 'a" where
  "getitem xs i =
     (if 0 \<le> i \<and> i < int (length xs) then Inr (xs ! nat i)
      else if - int (length xs) \<le> i \<and> i < 0 then Inr (xs ! nat (int (length xs) + i))
      else Inl IndexError)"

text \<open>\<open>xs[i] = v\<close>.\<close>

definition setitem :: "'a list \<Rightarrow> int \<Rightarrow> 'a \<Rightarrow> error + 'a list" where
  "setitem xs i v =
     (if 0 \<le> i \<and> i < int (length xs) then Inr (xs[nat i := v])
      else if - int (length xs) \<le> i \<and> i < 0 then Inr (xs[nat (int (length xs) + i) := v])
      else Inl IndexError)"

text \<open>\<open>image[row][col]\<close> and \<open>image[row][col] = p\<close>.\<close>

definition load_cell :: "'a list list \<Rightarrow> int \<Rightarrow> int \<Rightarrow> error + 'a" where
  "load_cell img row col = ebind (getitem img row) (\<lambda>r. getitem r col)"

definition store_cell :: "int \<Rightarrow> int \<Rightarrow> 'a \<Rightarrow> 'a list list \<Rightarrow> error + 'a list list" where
  "store_cell row col p img =
     ebind (getitem img row) (\<lambda>r. ebind (setitem r col p) (\<lambda>r'. setitem img row r'))"

text \<open>\<open>range(a, b)\<close> and \<open>range(a, b, step)\<close>; a zero step raises ValueError.\<close>

definition range_py :: "int \<Rightarrow> int \<Rightarrow> int list" where
  "range_py a b = map (\<lambda>k. a + int k) [0..<nat (b - a)]"

definition range_step :: "int \<Rightarrow> int \<Rightarrow> int \<Rightarrow> error + int list" where
  "range_step a b step =
     (if step = 0 then Inl ValueError
      else if 0 < step then Inr (map (\<lambda>k. a + step * int k) [0..<nat ((b - a + step - 1) div step)])
      else Inr (map (\<lambda>k. a + step * int k) [0..<nat ((a - b - step - 1) div (- step))]))"

text \<open>
  A \<open>for\<close> loop over a list: the body turns the state into a new one, or raises and leaves
  the state it has reached; the loop stops at the first exception.
\<close>

fun for_in :: "'i list \<Rightarrow> ('i \<Rightarrow> 's \<Rightarrow> error option \<times> 's) \<Rightarrow> 's \<Rightarrow> error option \<times> 's" where
  "for_in [] body s = (None, s)"
| "for_in (i # is) body s =
     (case body i s of (None, s') \<Rightarrow> for_in is body s' | (Some e, s') \<Rightarrow> (Some e, s'))"

text \<open>A statement that either raises before it changes anything or yields the new state.\<close>

definition stmt :: "('s \<Rightarrow> error + 's) \<Rightarrow> 's \<Rightarrow> error option \<times> 's" where
  "stmt f s = (case f s of Inl e \<Rightarrow> (Some e, s) | Inr s' \<Rightarrow> (None, s'))"

text \<open>A list comprehension whose element expression may raise.\<close>

fun comprehension :: "('i \<Rightarrow> error + 'a) \<Rightarrow> 'i list \<Rightarrow> error + 'a list" where
  "comprehension f [] = Inr []"
| "comprehension f (i # is) =
     ebind (f i) (\<lambda>x. ebind (comprehension f is) (\<lambda>xs. Inr (x # xs)))"

definition finish :: "error option \<times> grid \<Rightarrow> outcome \<times> grid" where
  "finish r = (case r of (None, img) \<Rightarrow> (Returned True, img) | (Some e, img) \<Rightarrow> (Raised e, img))"

section \<open>flip, transpose, rotate\<close>

text \<open>
  \<open>original_image\<close> is a list of copies of the rows, so the assignments to the rows of
  \<open>image\<close> do not change it.
\<close>

definition flip :: "grid \<Rightarrow> bool \<Rightarrow> outcome \<times> grid" where
  "flip img vertical =
     (case getitem img 0 of
        Inl e \<Rightarrow> (Raised e, img)
      | Inr row0 \<Rightarrow>
          let height = int (length img); width = int (length row0); original_image = img
          in finish
               (if vertical
                then for_in (range_py 0 height) (\<lambda>row.
                       for_in (range_py 0 width) (\<lambda>col. stmt (\<lambda>im.
                         ebind (load_cell original_image (height - 1 - row) col)
                           (\<lambda>p. store_cell row col p im)))) img
                else for_in (range_py 0 height) (\<lambda>row.
                       for_in (range_py 0 width) (\<lambda>col. stmt (\<lambda>im.
                         ebind (load_cell original_image row (width - 1 - col))
                           (\<lambda>p. store_cell row col p im)))) img))"

text \<open>
  transpose (named \<open>transpose_img\<close> here, as \<open>rotate_img\<close> is for rotate: both names
  are taken by list functions) builds the transposed copy first, then clears the image and appends the new
  rows one by one.
\<close>

definition transpose_img :: "grid \<Rightarrow> outcome \<times> grid" where
  "transpose_img img =
     (case getitem img 0 of
        Inl e \<Rightarrow> (Raised e, img)
      | Inr row0 \<Rightarrow>
          let original_height = int (length img); original_width = int (length row0)
          in (case comprehension (\<lambda>col. comprehension (\<lambda>row. load_cell img row col)
                                           (range_py 0 original_height))
                     (range_py 0 original_width) of
                Inl e \<Rightarrow> (Raised e, img)
              | Inr transposed_image \<Rightarrow>
                  finish (for_in (range_py 0 original_width) (\<lambda>row. stmt (\<lambda>im.
                            ebind (comprehension (\<lambda>col. load_cell transposed_image row col)
                                     (range_py 0 original_height))
                              (\<lambda>new_row. Inr (im @ [new_row])))) [])))"

definition rotate_img :: "grid \<Rightarrow> bool \<Rightarrow> outcome \<times> grid" where
  "rotate_img img right =
     (case getitem img 0 of
        Inl e \<Rightarrow> (Raised e, img)
      | Inr row0 \<Rightarrow>
          if right
          then (case flip img True of
                  (Raised e, img1) \<Rightarrow> (Raised e, img1)
                | (Returned b, img1) \<Rightarrow>
                    (case transpose_img img1 of
                       (Raised e, img2) \<Rightarrow> (Raised e, img2)
                     | (Returned c, img2) \<Rightarrow> (Returned True, img2)))
          else (case transpose_img img of
                  (Raised e, img1) \<Rightarrow> (Raised e, img1)
                | (Returned b, img1) \<Rightarrow>
                    (case flip img1 True of
                       (Raised e, img2) \<Rightarrow> (Raised e, img2)
                     | (Returned c, img2) \<Rightarrow> (Returned True, img2))))"

section \<open>blur\<close>

text \<open>\<open>a // b\<close> on integers: floor division, raising on a zero divisor.\<close>

definition floordiv :: "int \<Rightarrow> int \<Rightarrow> error + int" where
  "floordiv a b = (if b = 0 then Inl ZeroDivisionError else Inr (a div b))"

text \<open>
  The running totals \<open>(total_red, total_green, total_blue, total_alpha, count)\<close> and the
  statements that add one pixel to them.
\<close>

type_synonym totals = "int \<times> int \<times> int \<times> int \<times> int"

definition add_pixel :: "pixel \<Rightarrow> totals \<Rightarrow> totals" where
  "add_pixel p t =
     (case t of (tr, tg, tb, ta, n) \<Rightarrow> (tr + red p, tg + green p, tb + blue p, ta + alpha p, n + 1))"

text \<open>The four \<open>//\<close> divisions of the totals by the count, in the order of the source.\<close>

definition averages :: "totals \<Rightarrow> error + pixel" where
  "averages t =
     (case t of (tr, tg, tb, ta, n) \<Rightarrow>
        ebind (floordiv tr n) (\<lambda>ar. ebind (floordiv tg n) (\<lambda>ag.
        ebind (floordiv tb n) (\<lambda>ab. ebind (floordiv ta n) (\<lambda>aa. Inr (RGB ar ag ab aa))))))"

text \<open>The two inner loops of blur for the pixel at \<open>(row, col)\<close>.\<close>

definition blur_totals :: "grid \<Rightarrow> int \<Rightarrow> int \<Rightarrow> int \<Rightarrow> int \<Rightarrow> int \<Rightarrow> error option \<times> totals" where
  "blur_totals img height width radius row col =
     for_in (range_py (- radius) (radius + 1)) (\<lambda>i.
       for_in (range_py (- radius) (radius + 1)) (\<lambda>j. stmt (\<lambda>t.
         ebind (load_cell img (max 0 (min (row + i) (height - 1)))
                              (max 0 (min (col + j) (width - 1))))
           (\<lambda>pixel. Inr (add_pixel pixel t)))))
       (0, 0, 0, 0, 0)"

definition blur_pixel :: "grid \<Rightarrow> int \<Rightarrow> int \<Rightarrow> int \<Rightarrow> int \<Rightarrow> int \<Rightarrow> error + pixel" where
  "blur_pixel img height width radius row col =
     (case blur_totals img height width radius row col of
        (Some e, t) \<Rightarrow> Inl e
      | (None, t) \<Rightarrow> averages t)"

text \<open>
  blur fills \<open>blurred_image\<close>, a separate grid of fresh pixels, and copies it into the
  image afterwards; an exception in the first pass leaves the image as it was.
\<close>

definition blur :: "grid \<Rightarrow> int \<Rightarrow> outcome \<times> grid" where
  "blur img radius =
     (case getitem img 0 of
        Inl e \<Rightarrow> (Raised e, img)
      | Inr row0 \<Rightarrow>
          let height = int (length img); width = int (length row0);
              blurred_image = replicate (length img) (replicate (length row0) (RGB 0 0 0 0))
          in (case for_in (range_py 0 height) (\<lambda>row.
                     for_in (range_py 0 width) (\<lambda>col. stmt (\<lambda>bl.
                       ebind (blur_pixel img height width radius row col)
                         (\<lambda>p. store_cell row col p bl)))) blurred_image of
                (Some e, bl) \<Rightarrow> (Raised e, img)
              | (None, bl) \<Rightarrow>
                  finish (for_in (range_py 0 height) (\<lambda>row.
                            for_in (range_py 0 width) (\<lambda>col. stmt (\<lambda>im.
                              ebind (load_cell bl row col)
                                (\<lambda>p. store_cell row col p im)))) img)))"

section \<open>pixellate\<close>

text \<open>
  One block with its top-left corner at \<open>(row, col)\<close>: the totals of the block are read,
  divided by the count, and assigned to the four attributes of every pixel of the block.
\<close>

definition set_channels :: "pixel \<Rightarrow> pixel \<Rightarrow> pixel" where
  "set_channels avg p = p\<lparr>red := red avg, green := green avg, blue := blue avg, alpha := alpha avg\<rparr>"

definition pixellate_block :: "int \<Rightarrow> int \<Rightarrow> int \<Rightarrow> int \<Rightarrow> int \<Rightarrow> grid \<Rightarrow> error option \<times> grid" where
  "pixellate_block height width step row col img =
     (case for_in (range_py 0 (min step (height - row))) (\<lambda>i.
             for_in (range_py 0 (min step (width - col))) (\<lambda>j. stmt (\<lambda>t.
               ebind (load_cell img (row + i) (col + j))
                 (\<lambda>pixel. Inr (add_pixel pixel t)))))
             (0, 0, 0, 0, 0) of
        (Some e, t) \<Rightarrow> (Some e, img)
      | (None, t) \<Rightarrow>
          (case averages t of
             Inl e \<Rightarrow> (Some e, img)
           | Inr avg \<Rightarrow>
               for_in (range_py 0 (min step (height - row))) (\<lambda>i.
                 for_in (range_py 0 (min step (width - col))) (\<lambda>j. stmt (\<lambda>im.
                   ebind (load_cell im (row + i) (col + j))
                     (\<lambda>pixel. store_cell (row + i) (col + j) (set_channels avg pixel) im))))
                 img))"

text \<open>
  The ranges of the block corners are evaluated when their loop starts; a zero step
  raises ValueError before any block is read.
\<close>

definition pixellate :: "grid \<Rightarrow> int \<Rightarrow> outcome \<times> grid" where
  "pixellate img step =
     (case getitem img 0 of
        Inl e \<Rightarrow> (Raised e, img)
      | Inr row0 \<Rightarrow>
          let height = int (length img); width = int (length row0)
          in (case range_step 0 height step of
                Inl e \<Rightarrow> (Raised e, img)
              | Inr rows \<Rightarrow>
                  finish (for_in rows (\<lambda>row im.
                            case range_step 0 width step of
                              Inl e \<Rightarrow> (Some e, im)
                            | Inr cols \<Rightarrow>
                                for_in cols (\<lambda>col. pixellate_block height width step row col) im)
                          img)))"

section \<open>Auxiliary notions for the proofs\<close>

text \<open>Replacing one cell, and grids of equal dimensions.\<close>

definition put :: "nat \<Rightarrow> nat \<Rightarrow> 'a \<Rightarrow> 'a list list \<Rightarrow> 'a list list" where
  "put r c p g = g[r := (g ! r)[c := p]]"

definition same_shape :: "'a list list \<Rightarrow> 'a list list \<Rightarrow> bool" where
  "same_shape g g' \<longleftrightarrow> length g' = length g \<and> (\<forall>r < length g. length (g' ! r) = length (g ! r))"

text \<open>The transposed grid in the words of the specification: \<open>new[c][r] = old[r][c]\<close>.\<close>

definition transposed :: "'a list list \<Rightarrow> 'a list list" where
  "transposed g = map (\<lambda>c. map (\<lambda>r. g ! r ! c) [0..<length g]) [0..<length (hd g)]"

text \<open>A grid with two rows and three columns.\<close>

definition sample_grid :: grid where
  "sample_grid =
     [[RGB 200 100 50 255, RGB 1 1 1 255, RGB 10 20 30 100],
      [RGB 0 2 0 255, RGB 255 255 255 0, RGB 7 8 9 10]]"

text \<open>
  The brightness in the words of the specification,
  \<open>floor(0.3 * red + 0.6 * green + 0.1 * blue)\<close>, in exact arithmetic.
\<close>

definition brightness_spec :: "pixel \<Rightarrow> int" where
  "brightness_spec p =
     \<lfloor>3 / 10 * rat_of_int (red p) + 6 / 10 * rat_of_int (green p) + 1 / 10 * rat_of_int (blue p)\<rfloor>"

text \<open>
  The brightness that mono computes for a grey pixel of level \<open>v\<close>, and the 207 grey
  levels from 0 to 255 that this computation returns unchanged. The other 49 levels
  (1, 2, 4, 8, 11, 16, 22, 27, 32, 39, \<dots>, 246, 251) are those at which the floating-point
  sum \<open>0.3 * v + 0.6 * v + 0.1 * v\<close> falls just below \<open>v\<close>.
\<close>

definition grey_brightness :: "int \<Rightarrow> int" where
  "grey_brightness v = brightness (RGB v v v 255)"

definition stable_levels :: "int list" where
  "stable_levels =
     [0, 3, 5, 6, 7, 9, 10, 12, 13, 14, 15, 17, 18, 19, 20, 21, 23, 24, 25, 26, 28, 29, 30,
      31, 33, 34, 35, 36, 37, 38, 40, 41, 42, 43, 45, 46, 47, 48, 50, 51, 52, 53, 55, 56,
      57, 58, 60, 61, 62, 63, 65, 66, 67, 68, 69, 70, 71, 72, 74, 75, 76, 77, 79, 80, 81,
      82, 84, 85, 86, 87, 89, 90, 91, 92, 94, 95, 96, 97, 99, 100, 101, 102, 104, 105, 106,
      107, 109, 110, 111, 112, 114, 115, 116, 117, 119, 120, 121, 122, 124, 125, 126, 127,
      129, 130, 131, 132, 133, 134, 135, 136, 137, 138, 139, 140, 141, 142, 143, 144, 145,
      147, 148, 149, 150, 152, 153, 154, 155, 157, 158, 159, 160, 162, 163, 164, 165, 167,
      168, 169, 170, 172, 173, 174, 175, 177, 178, 179, 180, 182, 183, 184, 185, 187, 188,
      189, 190, 192, 193, 194, 195, 197, 198, 199, 200, 202, 203, 204, 205, 207, 208, 209,
      210, 212, 213, 214, 215, 217, 218, 219, 220, 222, 223, 224, 225, 227, 228, 229, 230,
      232, 233, 234, 235, 237, 238, 239, 240, 242, 243, 244, 245, 247, 248, 249, 250, 252,
      253, 254, 255]"

text \<open>
  The blurred pixel in the words of the specification: each channel is the sum over the
  square neighbourhood \<open>[r - radius, r + radius] \<times> [c - radius, c + radius]\<close>, every
  coordinate clamped to the nearest row or column of the grid, divided by
  \<open>(2 * radius + 1)\<^sup>2\<close>.
\<close>

definition clamp_index :: "int \<Rightarrow> nat \<Rightarrow> nat" where
  "clamp_index i n = nat (max 0 (min i (int n - 1)))"

definition neighbourhood_sum :: "(pixel \<Rightarrow> int) \<Rightarrow> grid \<Rightarrow> int \<Rightarrow> nat \<Rightarrow> nat \<Rightarrow> int" where
  "neighbourhood_sum ch g radius r c =
     (\<Sum>i = int r - radius..int r + radius. \<Sum>j = int c - radius..int c + radius.
        ch (g ! clamp_index i (length g) ! clamp_index j (length (hd g))))"

definition blur_spec :: "grid \<Rightarrow> int \<Rightarrow> nat \<Rightarrow> nat \<Rightarrow> pixel" where
  "blur_spec g radius r c =
     \<lparr>red = neighbourhood_sum red g radius r c div (2 * radius + 1)\<^sup>2,
      green = neighbourhood_sum green g radius r c div (2 * radius + 1)\<^sup>2,
      blue = neighbourhood_sum blue g radius r c div (2 * radius + 1)\<^sup>2,
      alpha = neighbourhood_sum alpha g radius r c div (2 * radius + 1)\<^sup>2\<rparr>"

text \<open>Componentwise addition of totals, used to state what the summing loops compute.\<close>

definition pixel_totals :: "pixel \<Rightarrow> totals" where
  "pixel_totals p = (red p, green p, blue p, alpha p, 1)"

definition add_totals :: "totals \<Rightarrow> totals \<Rightarrow> totals" where
  "add_totals s t =
     (case s of (a1, a2, a3, a4, a5) \<Rightarrow>
        case t of (b1, b2, b3, b4, b5) \<Rightarrow> (a1 + b1, a2 + b2, a3 + b3, a4 + b4, a5 + b5))"

definition sum_totals :: "('i \<Rightarrow> totals) \<Rightarrow> 'i list \<Rightarrow> totals" where
  "sum_totals F xs =
     (sum_list (map (\<lambda>i. fst (F i)) xs),
      sum_list (map (\<lambda>i. fst (snd (F i))) xs),
      sum_list (map (\<lambda>i. fst (snd (snd (F i)))) xs),
      sum_list (map (\<lambda>i. fst (snd (snd (snd (F i))))) xs),
      sum_list (map (\<lambda>i. snd (snd (snd (snd (F i))))) xs))"

text \<open>
  The pixellated pixel in the words of the specification. The block of the cell \<open>(r, c)\<close>
  has its corner at \<open>(r div step * step, c div step * step)\<close> and is clipped to the grid;
  each channel is the sum over the block divided by the number of its cells.
\<close>

definition block_sum :: "(pixel \<Rightarrow> int) \<Rightarrow> grid \<Rightarrow> nat \<Rightarrow> nat \<Rightarrow> nat \<Rightarrow> nat \<Rightarrow> int" where
  "block_sum ch img R bh C bw = (\<Sum>i = R..<R + bh. \<Sum>j = C..<C + bw. ch (img ! i ! j))"

definition block_average :: "grid \<Rightarrow> nat \<Rightarrow> nat \<Rightarrow> nat \<Rightarrow> nat \<Rightarrow> pixel" where
  "block_average img R bh C bw =
     \<lparr>red = block_sum red img R bh C bw div int (bh * bw),
      green = block_sum green img R bh C bw div int (bh * bw),
      blue = block_sum blue img R bh C bw div int (bh * bw),
      alpha = block_sum alpha img R bh C bw div int (bh * bw)\<rparr>"

definition pixellate_spec :: "grid \<Rightarrow> nat \<Rightarrow> nat \<Rightarrow> nat \<Rightarrow> pixel" where
  "pixellate_spec g step r c =
     block_average g (r div step * step) (min step (length g - r div step * step))
                     (c div step * step) (min step (length (hd g) - c div step * step))"

section \<open>Indexing and loops on grids\<close>

lemma getitem_nat: "i < length xs \<Longrightarrow> getitem xs (int i) = Inr (xs ! i)"
  by (simp add: getitem_def)

lemma setitem_nat: "i < length xs \<Longrightarrow> setitem xs (int i) v = Inr (xs[i := v])"
  by (simp add: setitem_def)

lemma load_cell_nat:
  "r < length g \<Longrightarrow> c < length (g ! r) \<Longrightarrow> load_cell g (int r) (int c) = Inr (g ! r ! c)"
  by (simp add: load_cell_def ebind_def getitem_nat)

lemma store_cell_nat:
  "r < length g \<Longrightarrow> c < length (g ! r) \<Longrightarrow> store_cell (int r) (int c) p g = Inr (put r c p g)"
  by (simp add: store_cell_def ebind_def getitem_nat setitem_nat put_def)

lemma range_py_0: "range_py 0 (int n) = map int [0..<n]"
  by (simp add: range_py_def)

lemma for_in_map: "for_in (map h xs) body = for_in xs (\<lambda>i. body (h i))"
proof
  fix s show "for_in (map h xs) body s = for_in xs (\<lambda>i. body (h i)) s"
    by (induction xs arbitrary: s) (auto split: prod.splits option.splits)
qed

lemma same_shape_refl: "same_shape g g"
  by (simp add: same_shape_def)

lemma same_shape_trans: "same_shape g g' \<Longrightarrow> same_shape g' g'' \<Longrightarrow> same_shape g g''"
  by (simp add: same_shape_def)

lemma same_shape_put: "same_shape g (put r c p g)"
  unfolding same_shape_def put_def
proof (intro conjI allI impI)
  fix k assume "k < length g"
  then show "length (g[r := (g ! r)[c := p]] ! k) = length (g ! k)"
    by (cases "k = r") simp_all
qed simp

lemma put_nth:
  "r' < length g \<Longrightarrow> c' < length (g ! r') \<Longrightarrow>
   put r c p g ! r' ! c' = (if r' = r \<and> c' = c then p else g ! r' ! c')"
  by (cases "r' = r"; cases "c' = c") (simp_all add: put_def)

lemma row_loop:
  assumes "distinct cs" "r < length g" "\<forall>c \<in> set cs. c < length (g ! r)"
    and body: "\<And>c im. c \<in> set cs \<Longrightarrow> same_shape g im \<Longrightarrow>
                 body c im = (None, put r c (f c (im ! r ! c)) im)"
  shows "\<exists>g'. for_in cs body g = (None, g') \<and> same_shape g g' \<and>
           (\<forall>r' c'. r' < length g \<longrightarrow> c' < length (g ! r') \<longrightarrow>
              g' ! r' ! c' = (if r' = r \<and> c' \<in> set cs then f c' (g ! r' ! c') else g ! r' ! c'))"
  using assms
proof (induction cs arbitrary: g)
  case Nil
  then show ?case by (simp add: same_shape_refl)
next
  case (Cons c cs)
  let ?g1 = "put r c (f c (g ! r ! c)) g"
  have step: "body c g = (None, ?g1)"
    using Cons.prems(4)[of c g] by (simp add: same_shape_refl)
  have sh1: "same_shape g ?g1" by (rule same_shape_put)
  have len1: "length ?g1 = length g" "\<And>k. k < length g \<Longrightarrow> length (?g1 ! k) = length (g ! k)"
    using sh1 by (auto simp: same_shape_def)
  have "\<exists>g'. for_in cs body ?g1 = (None, g') \<and> same_shape ?g1 g' \<and>
           (\<forall>r' c'. r' < length ?g1 \<longrightarrow> c' < length (?g1 ! r') \<longrightarrow>
              g' ! r' ! c' = (if r' = r \<and> c' \<in> set cs then f c' (?g1 ! r' ! c') else ?g1 ! r' ! c'))"
  proof (rule Cons.IH)
    show "distinct cs" using Cons.prems(1) by simp
    show "r < length ?g1" using Cons.prems(2) len1 by simp
    show "\<forall>c\<in>set cs. c < length (?g1 ! r)" using Cons.prems(2,3) len1 by simp
    show "\<And>c' im. c' \<in> set cs \<Longrightarrow> same_shape ?g1 im \<Longrightarrow>
            body c' im = (None, put r c' (f c' (im ! r ! c')) im)"
      using Cons.prems(4) same_shape_trans[OF sh1] by simp
  qed
  then obtain g' where g': "for_in cs body ?g1 = (None, g')" "same_shape ?g1 g'"
    and nth: "\<And>r' c'. r' < length ?g1 \<Longrightarrow> c' < length (?g1 ! r') \<Longrightarrow>
              g' ! r' ! c' = (if r' = r \<and> c' \<in> set cs then f c' (?g1 ! r' ! c') else ?g1 ! r' ! c')"
    by blast
  have "for_in (c # cs) body g = (None, g')" using step g' by simp
  moreover have "same_shape g g'" using sh1 g'(2) by (rule same_shape_trans)
  moreover have "g' ! r' ! c' = (if r' = r \<and> c' \<in> set (c # cs) then f c' (g ! r' ! c') else g ! r' ! c')"
    if "r' < length g" "c' < length (g ! r')" for r' c'
    using nth[of r' c'] that len1 Cons.prems(1) by (auto simp: put_nth)
  ultimately show ?case by blast
qed

lemma grid_loop:
  assumes "distinct rs" "distinct cs" "\<forall>r \<in> set rs. r < length g \<and> (\<forall>c \<in> set cs. c < length (g ! r))"
    and body: "\<And>r c im. r \<in> set rs \<Longrightarrow> c \<in> set cs \<Longrightarrow> same_shape g im \<Longrightarrow>
                 body r c im = (None, put r c (f r c (im ! r ! c)) im)"
  shows "\<exists>g'. for_in rs (\<lambda>r. for_in cs (body r)) g = (None, g') \<and> same_shape g g' \<and>
           (\<forall>r' c'. r' < length g \<longrightarrow> c' < length (g ! r') \<longrightarrow>
              g' ! r' ! c' = (if r' \<in> set rs \<and> c' \<in> set cs then f r' c' (g ! r' ! c') else g ! r' ! c'))"
  using assms
proof (induction rs arbitrary: g)
  case Nil
  then show ?case by (simp add: same_shape_refl)
next
  case (Cons r rs)
  have "\<exists>g1. for_in cs (body r) g = (None, g1) \<and> same_shape g g1 \<and>
           (\<forall>r' c'. r' < length g \<longrightarrow> c' < length (g ! r') \<longrightarrow>
              g1 ! r' ! c' = (if r' = r \<and> c' \<in> set cs then f r c' (g ! r' ! c') else g ! r' ! c'))"
  proof (rule row_loop)
    show "distinct cs" by (rule Cons.prems(2))
    show "r < length g" using Cons.prems(3) by simp
    show "\<forall>c\<in>set cs. c < length (g ! r)" using Cons.prems(3) by simp
    show "\<And>c im. c \<in> set cs \<Longrightarrow> same_shape g im \<Longrightarrow> body r c im = (None, put r c (f r c (im ! r ! c)) im)"
      using Cons.prems(4) by simp
  qed
  then obtain g1 where g1: "for_in cs (body r) g = (None, g1)" "same_shape g g1"
    and nth1: "\<And>r' c'. r' < length g \<Longrightarrow> c' < length (g ! r') \<Longrightarrow>
              g1 ! r' ! c' = (if r' = r \<and> c' \<in> set cs then f r c' (g ! r' ! c') else g ! r' ! c')"
    by blast
  have len1: "length g1 = length g" "\<And>k. k < length g \<Longrightarrow> length (g1 ! k) = length (g ! k)"
    using g1(2) by (auto simp: same_shape_def)
  have "\<exists>g'. for_in rs (\<lambda>r. for_in cs (body r)) g1 = (None, g') \<and> same_shape g1 g' \<and>
           (\<forall>r' c'. r' < length g1 \<longrightarrow> c' < length (g1 ! r') \<longrightarrow>
              g' ! r' ! c' = (if r' \<in> set rs \<and> c' \<in> set cs then f r' c' (g1 ! r' ! c') else g1 ! r' ! c'))"
  proof (rule Cons.IH)
    show "distinct rs" using Cons.prems(1) by simp
    show "distinct cs" by (rule Cons.prems(2))
    show "\<forall>r\<in>set rs. r < length g1 \<and> (\<forall>c\<in>set cs. c < length (g1 ! r))"
      using Cons.prems(3) len1 by simp
    show "\<And>r' c im. r' \<in> set rs \<Longrightarrow> c \<in> set cs \<Longrightarrow> same_shape g1 im \<Longrightarrow>
            body r' c im = (None, put r' c (f r' c (im ! r' ! c)) im)"
      using Cons.prems(4) same_shape_trans[OF g1(2)] by simp
  qed
  then obtain g' where g': "for_in rs (\<lambda>r. for_in cs (body r)) g1 = (None, g')" "same_shape g1 g'"
    and nth: "\<And>r' c'. r' < length g1 \<Longrightarrow> c' < length (g1 ! r') \<Longrightarrow>
              g' ! r' ! c' = (if r' \<in> set rs \<and> c' \<in> set cs then f r' c' (g1 ! r' ! c') else g1 ! r' ! c')"
    by blast
  have "for_in (r # rs) (\<lambda>r. for_in cs (body r)) g = (None, g')" using g1(1) g'(1) by simp
  moreover have "same_shape g g'" using g1(2) g'(2) by (rule same_shape_trans)
  moreover have "g' ! r' ! c' = (if r' \<in> set (r # rs) \<and> c' \<in> set cs then f r' c' (g ! r' ! c') else g ! r' ! c')"
    if "r' < length g" "c' < length (g ! r')" for r' c'
    using nth[of r' c'] nth1[of r' c'] that len1 Cons.prems(1) by auto
  ultimately show ?case by blast
qed

section \<open>Properties of flip\<close>

lemma grid_eqI:
  assumes "length g' = length g" "\<And>r. r < length g \<Longrightarrow> length (g' ! r) = length (g ! r)"
    and "\<And>r c. r < length g \<Longrightarrow> c < length (g ! r) \<Longrightarrow> g' ! r ! c = g ! r ! c"
  shows "g' = g"
proof (rule nth_equalityI)
  show "length g' = length g" by (rule assms(1))
  fix r assume "r < length g'"
  then have r: "r < length g" using assms(1) by simp
  show "g' ! r = g ! r"
    by (rule nth_equalityI) (use r assms(2,3) in auto)
qed

lemma well_formed_row: "well_formed g \<Longrightarrow> r < length g \<Longrightarrow> length (g ! r) = length (hd g)"
  unfolding well_formed_def using nth_mem by blast

lemma well_formed_pos: "well_formed g \<Longrightarrow> 0 < length g \<and> 0 < length (hd g)"
  unfolding well_formed_def by blast

lemma getitem_0: "g \<noteq> [] \<Longrightarrow> getitem g 0 = Inr (hd g)"
  by (cases g) (simp_all add: getitem_def)

lemma flip_vertical:
  assumes wf: "well_formed g"
  shows "flip g True = (Returned True, rev g)"
proof -
  let ?h = "length g" and ?w = "length (hd g)"
  let ?body = "\<lambda>r c. stmt (\<lambda>im. ebind (load_cell g (int ?h - 1 - int r) (int c))
                                   (\<lambda>p. store_cell (int r) (int c) p im))"
  have ne: "g \<noteq> []" using wf unfolding well_formed_def by blast
  have rows: "\<And>r. r < ?h \<Longrightarrow> length (g ! r) = ?w" using wf by (simp add: well_formed_row)
  have "\<exists>g'. for_in [0..<?h] (\<lambda>r. for_in [0..<?w] (?body r)) g = (None, g') \<and> same_shape g g' \<and>
           (\<forall>r' c'. r' < length g \<longrightarrow> c' < length (g ! r') \<longrightarrow>
              g' ! r' ! c' = (if r' \<in> set [0..<?h] \<and> c' \<in> set [0..<?w]
                              then (\<lambda>r c p. g ! (?h - 1 - r) ! c) r' c' (g ! r' ! c') else g ! r' ! c'))"
  proof (rule grid_loop)
    show "distinct [0..<?h]" "distinct [0..<?w]" by simp_all
    show "\<forall>r\<in>set [0..<?h]. r < ?h \<and> (\<forall>c\<in>set [0..<?w]. c < length (g ! r))"
      using rows by simp
    fix r c im
    assume r: "r \<in> set [0..<?h]" and c: "c \<in> set [0..<?w]" and sh: "same_shape g im"
    have r': "r < ?h" "?h - 1 - r < ?h" and c': "c < ?w" using r c by auto
    have idx: "int ?h - 1 - int r = int (?h - 1 - r)" using r' by linarith
    have ld: "load_cell g (int ?h - 1 - int r) (int c) = Inr (g ! (?h - 1 - r) ! c)"
      unfolding idx using r' c' rows by (intro load_cell_nat) simp_all
    have st: "store_cell (int r) (int c) p im = Inr (put r c p im)" for p
      using sh r' c' rows by (intro store_cell_nat) (simp_all add: same_shape_def)
    show "?body r c im = (None, put r c (g ! (?h - 1 - r) ! c) im)"
      by (simp add: stmt_def ld st ebind_def)
  qed
  then obtain g' where run: "for_in [0..<?h] (\<lambda>r. for_in [0..<?w] (?body r)) g = (None, g')"
    and sh: "same_shape g g'"
    and nth0: "\<forall>r' c'. r' < length g \<longrightarrow> c' < length (g ! r') \<longrightarrow>
              g' ! r' ! c' = (if r' \<in> set [0..<?h] \<and> c' \<in> set [0..<?w]
                              then g ! (?h - 1 - r') ! c' else g ! r' ! c')"
    by blast
  have nth: "g' ! r ! c = g ! (?h - 1 - r) ! c" if "r < ?h" "c < length (g ! r)" for r c
    using nth0 that rows by simp
  have "g' = rev g"
  proof (rule grid_eqI)
    show "length g' = length (rev g)" using sh by (simp add: same_shape_def)
    fix r assume r: "r < length (rev g)"
    then have r1: "r < ?h" "?h - 1 - r < ?h" by auto
    have rv: "rev g ! r = g ! (?h - 1 - r)" using r1 by (simp add: rev_nth)
    show "length (g' ! r) = length (rev g ! r)"
      using sh r1 rows by (simp add: same_shape_def rv)
    fix c assume "c < length (rev g ! r)"
    then have "c < length (g ! r)" using rv rows r1 by simp
    then show "g' ! r ! c = rev g ! r ! c" using nth r1 rv by simp
  qed
  moreover have "flip g True = finish (for_in [0..<?h] (\<lambda>r. for_in [0..<?w] (?body r)) g)"
    using ne by (simp add: flip_def getitem_0 range_py_0 for_in_map)
  ultimately show ?thesis
    using run by (simp add: finish_def)
qed

lemma flip_horizontal:
  assumes wf: "well_formed g"
  shows "flip g False = (Returned True, map rev g)"
proof -
  let ?h = "length g" and ?w = "length (hd g)"
  let ?body = "\<lambda>r c. stmt (\<lambda>im. ebind (load_cell g (int r) (int ?w - 1 - int c))
                                   (\<lambda>p. store_cell (int r) (int c) p im))"
  have ne: "g \<noteq> []" using wf unfolding well_formed_def by blast
  have rows: "\<And>r. r < ?h \<Longrightarrow> length (g ! r) = ?w" using wf by (simp add: well_formed_row)
  have "\<exists>g'. for_in [0..<?h] (\<lambda>r. for_in [0..<?w] (?body r)) g = (None, g') \<and> same_shape g g' \<and>
           (\<forall>r' c'. r' < length g \<longrightarrow> c' < length (g ! r') \<longrightarrow>
              g' ! r' ! c' = (if r' \<in> set [0..<?h] \<and> c' \<in> set [0..<?w]
                              then (\<lambda>r c p. g ! r ! (?w - 1 - c)) r' c' (g ! r' ! c') else g ! r' ! c'))"
  proof (rule grid_loop)
    show "distinct [0..<?h]" "distinct [0..<?w]" by simp_all
    show "\<forall>r\<in>set [0..<?h]. r < ?h \<and> (\<forall>c\<in>set [0..<?w]. c < length (g ! r))"
      using rows by simp
    fix r c im
    assume r: "r \<in> set [0..<?h]" and c: "c \<in> set [0..<?w]" and sh: "same_shape g im"
    have r': "r < ?h" and c': "c < ?w" "?w - 1 - c < ?w" using r c by auto
    have idx: "int ?w - 1 - int c = int (?w - 1 - c)" using c' by linarith
    have ld: "load_cell g (int r) (int ?w - 1 - int c) = Inr (g ! r ! (?w - 1 - c))"
      unfolding idx using r' c' rows by (intro load_cell_nat) simp_all
    have st: "store_cell (int r) (int c) p im = Inr (put r c p im)" for p
      using sh r' c' rows by (intro store_cell_nat) (simp_all add: same_shape_def)
    show "?body r c im = (None, put r c (g ! r ! (?w - 1 - c)) im)"
      by (simp add: stmt_def ld st ebind_def)
  qed
  then obtain g' where run: "for_in [0..<?h] (\<lambda>r. for_in [0..<?w] (?body r)) g = (None, g')"
    and sh: "same_shape g g'"
    and nth0: "\<forall>r' c'. r' < length g \<longrightarrow> c' < length (g ! r') \<longrightarrow>
              g' ! r' ! c' = (if r' \<in> set [0..<?h] \<and> c' \<in> set [0..<?w]
                              then g ! r' ! (?w - 1 - c') else g ! r' ! c')"
    by blast
  have nth: "g' ! r ! c = g ! r ! (?w - 1 - c)" if "r < ?h" "c < length (g ! r)" for r c
    using nth0 that rows by simp
  have "g' = map rev g"
  proof (rule grid_eqI)
    show "length g' = length (map rev g)" using sh by (simp add: same_shape_def)
    fix r assume r: "r < length (map rev g)"
    then have r1: "r < ?h" by simp
    show "length (g' ! r) = length (map rev g ! r)"
      using sh r1 by (simp add: same_shape_def)
    fix c assume "c < length (map rev g ! r)"
    then have c: "c < length (g ! r)" using r1 by simp
    then show "g' ! r ! c = map rev g ! r ! c" using nth[OF r1 c] r1 rows by (simp add: rev_nth)
  qed
  moreover have "flip g False = finish (for_in [0..<?h] (\<lambda>r. for_in [0..<?w] (?body r)) g)"
    using ne by (simp add: flip_def getitem_0 range_py_0 for_in_map)
  ultimately show ?thesis
    using run by (simp add: finish_def)
qed

lemma well_formedI:
  assumes "g \<noteq> []" "0 < w" "\<And>r. r < length g \<Longrightarrow> length (g ! r) = w"
  shows "well_formed g"
proof -
  have h: "hd g = g ! 0" using assms(1) by (simp add: hd_conv_nth)
  have w: "length (hd g) = w" using assms(1) assms(3)[of 0] h by simp
  have "length row = length (hd g)" if mem: "row \<in> set g" for row
  proof -
    obtain r where "r < length g" "row = g ! r" using mem by (auto simp: in_set_conv_nth)
    then show ?thesis using assms(3) w by simp
  qed
  moreover have "hd g \<noteq> []" using w assms(2) by auto
  ultimately show ?thesis unfolding well_formed_def using assms(1) by blast
qed

lemma well_formed_same_shape:
  assumes "well_formed g" "same_shape g g'"
  shows "well_formed g'" "length (hd g') = length (hd g)"
proof -
  have ne: "g \<noteq> []" and pos: "0 < length (hd g)" using well_formed_pos[OF assms(1)] by auto
  have len: "length g' = length g" and rows: "\<And>r. r < length g \<Longrightarrow> length (g' ! r) = length (hd g)"
    using assms(2) well_formed_row[OF assms(1)] by (auto simp: same_shape_def)
  have ne': "g' \<noteq> []" using len ne by auto
  show "well_formed g'"
    by (rule well_formedI[where w = "length (hd g)"]) (use ne' pos rows len in auto)
  show "length (hd g') = length (hd g)"
    using rows[of 0] ne ne' by (simp add: hd_conv_nth)
qed

lemma same_shape_rev: "well_formed g \<Longrightarrow> same_shape g (rev g)"
  by (simp add: same_shape_def rev_nth well_formed_row)

lemma well_formed_rev: "well_formed g \<Longrightarrow> well_formed (rev g)"
  using well_formed_same_shape(1) same_shape_rev by blast

lemma well_formed_map_rev: "well_formed g \<Longrightarrow> well_formed (map rev g)"
  by (rule well_formed_same_shape(1)[where g = g]) (simp_all add: same_shape_def)

lemma well_formed_sample_grid: "well_formed sample_grid"
  by (simp add: well_formed_def sample_grid_def)

text \<open>
  C6: for every well-formed grid \<open>g\<close> and every fixed boolean \<open>v\<close>, \<open>flip(g, v)\<close> returns
  True, and applying flip with the same \<open>v\<close> to its result returns True and restores
  the original grid exactly.
\<close>

theorem flip_involution:
  "well_formed g \<Longrightarrow> fst (flip g v) = Returned True \<and> flip (snd (flip g v)) v = (Returned True, g)"
proof (cases v)
  case True
  assume "well_formed g"
  then show ?thesis using True by (simp add: flip_vertical well_formed_rev)
next
  case False
  assume wf: "well_formed g"
  have "map rev (map rev g) = g" by (induction g) simp_all
  with False wf show ?thesis by (simp add: flip_horizontal well_formed_map_rev)
qed

theorem flip_involution_witness:
  "well_formed sample_grid \<and> fst (flip sample_grid True) = Returned True \<and>
   flip (snd (flip sample_grid True)) True = (Returned True, sample_grid)"
  using flip_involution[of sample_grid True] well_formed_sample_grid by simp

section \<open>Properties of transpose and rotate\<close>

lemma comprehension_map:
  "(\<And>i. i \<in> set xs \<Longrightarrow> f i = Inr (h i)) \<Longrightarrow> comprehension f xs = Inr (map h xs)"
  by (induction xs) (simp_all add: ebind_def)

lemma for_in_appending:
  "(\<And>i im. i \<in> set xs \<Longrightarrow> body i im = (None, im @ [F i])) \<Longrightarrow>
   for_in xs body s = (None, s @ map F xs)"
  by (induction xs arbitrary: s) simp_all

lemma transposed_length: "length (transposed g) = length (hd g)"
  by (simp add: transposed_def)

lemma transposed_row: "c < length (hd g) \<Longrightarrow> transposed g ! c = map (\<lambda>r. g ! r ! c) [0..<length g]"
  by (simp add: transposed_def)

lemma transposed_nth:
  "c < length (hd g) \<Longrightarrow> r < length g \<Longrightarrow> transposed g ! c ! r = g ! r ! c"
  by (simp add: transposed_row)

lemma well_formed_transposed:
  assumes "well_formed g"
  shows "well_formed (transposed g)" and "length (hd (transposed g)) = length g"
proof -
  have pos: "0 < length g" "0 < length (hd g)" using well_formed_pos[OF assms] by auto
  have ne: "transposed g \<noteq> []" using pos by (simp add: transposed_def)
  show "well_formed (transposed g)"
    by (rule well_formedI[where w = "length g"])
       (use ne pos in \<open>simp_all add: transposed_length transposed_row\<close>)
  show "length (hd (transposed g)) = length g"
    using ne pos by (simp add: hd_conv_nth transposed_row)
qed

lemma transpose_img_well_formed:
  assumes wf: "well_formed g"
  shows "transpose_img g = (Returned True, transposed g)"
proof -
  let ?h = "length g" and ?w = "length (hd g)"
  have ne: "g \<noteq> []" using wf unfolding well_formed_def by blast
  have rows: "\<And>r. r < ?h \<Longrightarrow> length (g ! r) = ?w" using wf by (simp add: well_formed_row)
  have inner: "comprehension (\<lambda>row. load_cell g (int row) (int c)) [0..<?h]
                 = Inr (map (\<lambda>r. g ! r ! c) [0..<?h])" if "c < ?w" for c
    by (rule comprehension_map) (use that rows in \<open>simp add: load_cell_nat\<close>)
  have copy: "comprehension (\<lambda>col. comprehension (\<lambda>row. load_cell g (int row) (int col)) [0..<?h])
                [0..<?w] = Inr (transposed g)"
    unfolding transposed_def by (rule comprehension_map) (simp add: inner)
  have new_row: "comprehension (\<lambda>col. load_cell (transposed g) (int row) (int col)) [0..<?h]
                 = Inr (transposed g ! row)" if "row < ?w" for row
  proof -
    have "comprehension (\<lambda>col. load_cell (transposed g) (int row) (int col)) [0..<?h]
            = Inr (map (\<lambda>col. transposed g ! row ! col) [0..<?h])"
      by (rule comprehension_map)
         (use that in \<open>simp add: load_cell_nat transposed_length transposed_row\<close>)
    also have "map (\<lambda>col. transposed g ! row ! col) [0..<?h] = transposed g ! row"
      using that by (simp add: transposed_row)
    finally show ?thesis .
  qed
  have "for_in [0..<?w] (\<lambda>row. stmt (\<lambda>im.
          ebind (comprehension (\<lambda>col. load_cell (transposed g) (int row) (int col)) [0..<?h])
            (\<lambda>new_row. Inr (im @ [new_row])))) []
        = (None, [] @ map (\<lambda>row. transposed g ! row) [0..<?w])"
    by (rule for_in_appending) (simp add: stmt_def ebind_def new_row)
  also have "map (\<lambda>row. transposed g ! row) [0..<?w] = transposed g"
    using map_nth[of "transposed g"] by (simp add: transposed_length)
  finally have rebuild: "for_in [0..<?w] (\<lambda>row. stmt (\<lambda>im.
          ebind (comprehension (\<lambda>col. load_cell (transposed g) (int row) (int col)) [0..<?h])
            (\<lambda>new_row. Inr (im @ [new_row])))) [] = (None, transposed g)"
    by simp
  have cm: "comprehension f (map int xs) = comprehension (\<lambda>i. f (int i)) xs" for f :: "int \<Rightarrow> error + 'b" and xs
    by (induction xs) simp_all
  show ?thesis
    using ne by (simp add: transpose_img_def getitem_0 range_py_0 for_in_map cm copy rebuild finish_def)
qed



lemma transposed_transposed:
  assumes wf: "well_formed g"
  shows "transposed (transposed g) = g"
proof (rule grid_eqI)
  have h: "length (hd (transposed g)) = length g" by (rule well_formed_transposed(2)[OF wf])
  show "length (transposed (transposed g)) = length g"
    by (simp add: transposed_length h)
  fix r assume r: "r < length g"
  then have row: "transposed (transposed g) ! r = map (\<lambda>c. transposed g ! c ! r) [0..<length (hd g)]"
    using h by (simp add: transposed_row transposed_length)
  show "length (transposed (transposed g) ! r) = length (g ! r)"
    using r wf by (simp add: row well_formed_row)
  fix c assume "c < length (g ! r)"
  then have c: "c < length (hd g)" using r wf by (simp add: well_formed_row)
  show "transposed (transposed g) ! r ! c = g ! r ! c"
    using r c by (simp add: row transposed_nth)
qed

lemma hd_rev_length: "well_formed g \<Longrightarrow> length (hd (rev g)) = length (hd g)"
  using well_formed_same_shape(2) same_shape_rev by blast

lemma transposed_rev:
  assumes wf: "well_formed g"
  shows "transposed (rev g) = map rev (transposed g)"
proof (rule nth_equalityI)
  let ?h = "length g" and ?w = "length (hd g)"
  show "length (transposed (rev g)) = length (map rev (transposed g))"
    using wf by (simp add: transposed_length hd_rev_length)
  fix c assume "c < length (transposed (rev g))"
  then have c: "c < ?w" using wf by (simp add: transposed_length hd_rev_length)
  have "transposed (rev g) ! c = map (\<lambda>r. rev g ! r ! c) [0..<?h]"
    using c wf by (simp add: transposed_row hd_rev_length)
  also have "\<dots> = rev (map (\<lambda>r. g ! r ! c) [0..<?h])"
    by (rule nth_equalityI) (simp_all add: rev_nth)
  also have "\<dots> = map rev (transposed g) ! c"
    using c by (simp add: transposed_length transposed_row)
  finally show "transposed (rev g) ! c = map rev (transposed g) ! c" .
qed

lemma rev_map_rev_twice: "rev (map rev (rev (map rev g))) = g"
proof -
  have "map rev (map rev g) = g" by (induction g) simp_all
  then show ?thesis by (simp add: rev_map)
qed

lemma rotate_left:
  assumes wf: "well_formed g"
  shows "rotate_img g False = (Returned True, rev (transposed g))"
proof -
  have ne: "g \<noteq> []" using wf unfolding well_formed_def by blast
  show ?thesis
    using ne by (simp add: rotate_img_def getitem_0 transpose_img_well_formed[OF wf]
        flip_vertical[OF well_formed_transposed(1)[OF wf]])
qed

lemma rotate_right:
  assumes wf: "well_formed g"
  shows "rotate_img g True = (Returned True, transposed (rev g))"
proof -
  have ne: "g \<noteq> []" using wf unfolding well_formed_def by blast
  show ?thesis
    using ne by (simp add: rotate_img_def getitem_0 flip_vertical[OF wf]
        transpose_img_well_formed[OF well_formed_rev[OF wf]])
qed

lemma well_formed_rotated:
  assumes wf: "well_formed g"
  shows "well_formed (snd (rotate_img g right))"
    and "length (snd (rotate_img g right)) = length (hd g)"
    and "length (hd (snd (rotate_img g right))) = length g"
proof -
  have l: "well_formed (rev (transposed g))" "length (rev (transposed g)) = length (hd g)"
    "length (hd (rev (transposed g))) = length g"
    using well_formed_transposed[OF wf] by (simp_all add: well_formed_rev hd_rev_length transposed_length)
  have r: "well_formed (transposed (rev g))" "length (transposed (rev g)) = length (hd g)"
    "length (hd (transposed (rev g))) = length g"
    using well_formed_transposed[OF well_formed_rev[OF wf]] wf
    by (simp_all add: transposed_length hd_rev_length)
  show "well_formed (snd (rotate_img g right))"
    using l r by (cases right) (simp_all add: rotate_left[OF wf] rotate_right[OF wf])
  show "length (snd (rotate_img g right)) = length (hd g)"
    using l r by (cases right) (simp_all add: rotate_left[OF wf] rotate_right[OF wf])
  show "length (hd (snd (rotate_img g right))) = length g"
    using l r by (cases right) (simp_all add: rotate_left[OF wf] rotate_right[OF wf])
qed

lemma rotate_left_twice:
  assumes wf: "well_formed g"
  shows "rev (transposed (rev (transposed g))) = rev (map rev g)"
  by (simp add: transposed_rev[OF well_formed_transposed(1)[OF wf]] transposed_transposed[OF wf])

text \<open>
  C7: for every well-formed grid with H rows and W columns, rotate returns True and leaves
  a well-formed grid with W rows and H columns; the left rotation is what transpose
  followed by the vertical flip leaves, the right rotation what the vertical flip
  followed by transpose leaves; four left rotations restore the original grid; and a
  right rotation after a left one, or a left one after a right one, restores it.
\<close>

theorem rotate_algebra:
  assumes wf: "well_formed g"
  shows "fst (rotate_img g right) = Returned True \<and>
         well_formed (snd (rotate_img g right)) \<and>
         length (snd (rotate_img g right)) = length (hd g) \<and>
         length (hd (snd (rotate_img g right))) = length g \<and>
         snd (rotate_img g False) = snd (flip (snd (transpose_img g)) True) \<and>
         snd (rotate_img g True) = snd (transpose_img (snd (flip g True))) \<and>
         snd (rotate_img (snd (rotate_img (snd (rotate_img (snd (rotate_img g False)) False)) False)) False) = g \<and>
         snd (rotate_img (snd (rotate_img g False)) True) = g \<and>
         snd (rotate_img (snd (rotate_img g True)) False) = g"
proof -
  have wt: "well_formed (transposed g)" by (rule well_formed_transposed(1)[OF wf])
  have wr: "well_formed (rev g)" by (rule well_formed_rev[OF wf])
  have wl: "well_formed (rev (transposed g))" by (rule well_formed_rev[OF wt])
  have wrr: "well_formed (transposed (rev g))" by (rule well_formed_transposed(1)[OF wr])
  have w2: "well_formed (rev (map rev g))"
    by (rule well_formed_rev[OF well_formed_map_rev[OF wf]])
  have l2: "snd (rotate_img (snd (rotate_img g False)) False) = rev (map rev g)"
    by (simp add: rotate_left[OF wf] rotate_left[OF wl] rotate_left_twice[OF wf])
  have l4: "snd (rotate_img (snd (rotate_img (rev (map rev g)) False)) False) = g"
    using rotate_left_twice[OF w2] rotate_left[OF w2]
      rotate_left[OF well_formed_rev[OF well_formed_transposed(1)[OF w2]]]
    by (simp add: rev_map_rev_twice)
  have "fst (rotate_img g right) = Returned True"
    by (cases right) (simp_all add: rotate_left[OF wf] rotate_right[OF wf])
  moreover have "snd (rotate_img g False) = snd (flip (snd (transpose_img g)) True)"
    by (simp add: rotate_left[OF wf] transpose_img_well_formed[OF wf] flip_vertical[OF wt])
  moreover have "snd (rotate_img g True) = snd (transpose_img (snd (flip g True)))"
    by (simp add: rotate_right[OF wf] flip_vertical[OF wf] transpose_img_well_formed[OF wr])
  moreover have "snd (rotate_img (snd (rotate_img (snd (rotate_img (snd (rotate_img g False)) False)) False)) False) = g"
    using l4 l2 by simp
  moreover have "snd (rotate_img (snd (rotate_img g False)) True) = g"
    by (simp add: rotate_left[OF wf] rotate_right[OF wl] transposed_transposed[OF wf])
  moreover have "snd (rotate_img (snd (rotate_img g True)) False) = g"
    by (simp add: rotate_right[OF wf] rotate_left[OF wrr] transposed_transposed[OF wr])
  ultimately show ?thesis
    using well_formed_rotated[OF wf, of right] by simp
qed

theorem rotate_algebra_witness:
  "well_formed sample_grid \<and>
   fst (rotate_img sample_grid True) = Returned True \<and>
   length (snd (rotate_img sample_grid True)) = length (hd sample_grid) \<and>
   snd (rotate_img (snd (rotate_img sample_grid False)) True) = sample_grid"
  using rotate_algebra[of sample_grid True] well_formed_sample_grid by blast

section \<open>Evaluating the floating-point operations\<close>

text \<open>Rules with which the simplifier evaluates the operations on numerals.\<close>

lemma floorlog2_one: "floorlog 2 1 = 1"
  by (simp add: compute_floorlog)

lemma floorlog2_Suc0: "floorlog 2 (Suc 0) = 1"
  by (simp add: compute_floorlog)

lemma floorlog2_Bit0: "floorlog 2 (numeral (Num.Bit0 n)) = floorlog 2 (numeral n) + 1"
  by (subst compute_floorlog) (simp add: numeral_Bit0_div_2)

lemma floorlog2_Bit1: "floorlog 2 (numeral (Num.Bit1 n)) = floorlog 2 (numeral n) + 1"
  by (subst compute_floorlog) (simp add: numeral_Bit1_div_2)

lemma floor_numeral_div: "\<lfloor>numeral a / numeral b :: rat\<rfloor> = numeral a div numeral b"
  using floor_divide_of_int_eq[of "numeral a" "numeral b", where ?'a = rat] by simp

lemma ceiling_numeral_div: "\<lceil>numeral a / numeral b :: rat\<rceil> = - (- numeral a div numeral b)"
  using floor_divide_of_int_eq[of "- numeral a" "numeral b", where ?'a = rat]
  by (simp add: ceiling_def)

lemmas float_eval = rnd_def expo_def pow2_def round_even_def Let_def fadd_def fmul_def fsub_def
  trunc_def floorlog2_one floorlog2_Suc0 floorlog2_Bit0 floorlog2_Bit1
  floor_numeral_div ceiling_numeral_div

section \<open>Summing loops\<close>

lemma add_pixel_totals: "add_pixel p t = add_totals t (pixel_totals p)"
  by (cases t) (simp add: add_pixel_def add_totals_def pixel_totals_def)

lemma add_totals_assoc_sum:
  "add_totals (add_totals t (F i)) (sum_totals F xs) = add_totals t (sum_totals F (i # xs))"
  by (cases t; cases "F i") (simp add: add_totals_def sum_totals_def)

lemma add_totals_empty: "add_totals t (sum_totals F []) = t"
  by (cases t) (simp add: add_totals_def sum_totals_def)

lemma totals_loop:
  assumes "\<And>i t. i \<in> set xs \<Longrightarrow> body i t = (None, add_totals t (F i))"
  shows "for_in xs body t = (None, add_totals t (sum_totals F xs))"
  using assms
proof (induction xs arbitrary: t)
  case Nil
  then show ?case by (simp add: add_totals_empty)
next
  case (Cons i xs)
  have "for_in (i # xs) body t = for_in xs body (add_totals t (F i))"
    using Cons.prems[of i t] by simp
  also have "\<dots> = (None, add_totals (add_totals t (F i)) (sum_totals F xs))"
    using Cons.prems by (intro Cons.IH) simp
  finally show ?case by (simp add: add_totals_assoc_sum)
qed

lemma set_range_py: "set (range_py a b) = {a..b - 1}"
proof (intro set_eqI iffI)
  fix x assume "x \<in> set (range_py a b)"
  then show "x \<in> {a..b - 1}" by (auto simp: range_py_def)
next
  fix x assume x: "x \<in> {a..b - 1}"
  then have "x = a + int (nat (x - a))" "nat (x - a) < nat (b - a)" by auto
  then show "x \<in> set (range_py a b)"
    unfolding range_py_def set_map set_upt by (metis atLeastLessThan_iff image_eqI le0)
qed

lemma distinct_range_py: "distinct (range_py a b)"
  by (simp add: range_py_def distinct_map inj_on_def)

lemma length_range_py: "length (range_py a b) = nat (b - a)"
  by (simp add: range_py_def)

lemma sum_list_range_py: "sum_list (map f (range_py a b)) = (\<Sum>i = a..b - 1. f i)"
  using sum_list_distinct_conv_sum_set[OF distinct_range_py, of f a b]
  by (simp add: set_range_py)

lemma map_range_py_shift:
  "map (\<lambda>i. f (r + i)) (range_py a b) = map f (range_py (r + a) (r + b))"
  by (simp add: range_py_def add.assoc)

lemma sum_list_range_py_shift:
  "sum_list (map (\<lambda>i. f (r + i)) (range_py a b)) = (\<Sum>i = r + a..r + b - 1. f i)"
  by (simp add: map_range_py_shift sum_list_range_py)

section \<open>Properties of blur\<close>

lemma clamp_index_less: "0 < n \<Longrightarrow> clamp_index i n < n"
  by (auto simp: clamp_index_def)

lemma clamp_index_int: "0 < n \<Longrightarrow> max 0 (min i (int n - 1)) = int (clamp_index i n)"
  by (simp add: clamp_index_def)

lemma blur_totals_well_formed:
  assumes wf: "well_formed g" and r: "r < length g" and c: "c < length (hd g)"
  shows "blur_totals g (int (length g)) (int (length (hd g))) radius (int r) (int c) =
         (None, (neighbourhood_sum red g radius r c, neighbourhood_sum green g radius r c,
                 neighbourhood_sum blue g radius r c, neighbourhood_sum alpha g radius r c,
                 int (nat (2 * radius + 1)) * int (nat (2 * radius + 1))))"
proof -
  let ?h = "length g" and ?w = "length (hd g)"
  let ?P = "\<lambda>i j. g ! clamp_index (int r + i) ?h ! clamp_index (int c + j) ?w"
  let ?R = "range_py (- radius) (radius + 1)"
  let ?inner = "\<lambda>i j. stmt (\<lambda>t.
         ebind (load_cell g (max 0 (min (int r + i) (int ?h - 1)))
                            (max 0 (min (int c + j) (int ?w - 1))))
           (\<lambda>pixel. Inr (add_pixel pixel t)))"
  have pos: "0 < ?h" "0 < ?w" using r c by auto
  have rows: "\<And>k. k < ?h \<Longrightarrow> length (g ! k) = ?w" using wf by (simp add: well_formed_row)
  have cell: "?inner i j t = (None, add_totals t (pixel_totals (?P i j)))" for i j t
  proof -
    have "load_cell g (max 0 (min (int r + i) (int ?h - 1))) (max 0 (min (int c + j) (int ?w - 1)))
          = Inr (?P i j)"
    proof -
      have ri: "clamp_index (int r + i) ?h < ?h" by (rule clamp_index_less[OF pos(1)])
      have cj: "clamp_index (int c + j) ?w < length (g ! clamp_index (int r + i) ?h)"
        using clamp_index_less[OF pos(2)] rows[OF ri] by simp
      show ?thesis
        unfolding clamp_index_int[OF pos(1)] clamp_index_int[OF pos(2)]
        by (rule load_cell_nat[OF ri cj])
    qed
    then show ?thesis by (simp add: stmt_def ebind_def add_pixel_totals)
  qed
  have row_sum: "for_in ?R (?inner i) t
                 = (None, add_totals t (sum_totals (\<lambda>j. pixel_totals (?P i j)) ?R))" for i t
    by (rule totals_loop) (rule cell)
  have all: "for_in ?R (\<lambda>i. for_in ?R (?inner i)) (0, 0, 0, 0, 0)
             = (None, add_totals (0, 0, 0, 0, 0)
                  (sum_totals (\<lambda>i. sum_totals (\<lambda>j. pixel_totals (?P i j)) ?R) ?R))"
    by (rule totals_loop) (rule row_sum)
  have sums: "sum_list (map (\<lambda>i. sum_list (map (\<lambda>j. ch (?P i j)) ?R)) ?R)
              = neighbourhood_sum ch g radius r c" for ch
  proof -
    have "sum_list (map (\<lambda>j. ch (?P i j)) ?R)
          = (\<Sum>j = int c - radius..int c + radius.
               ch (g ! clamp_index (int r + i) ?h ! clamp_index j ?w))" for i
      using sum_list_range_py_shift[of "\<lambda>j. ch (g ! clamp_index (int r + i) ?h ! clamp_index j ?w)"
          "int c" "- radius" "radius + 1"]
      by simp
    then have "sum_list (map (\<lambda>i. sum_list (map (\<lambda>j. ch (?P i j)) ?R)) ?R)
          = sum_list (map (\<lambda>i. \<Sum>j = int c - radius..int c + radius.
               ch (g ! clamp_index (int r + i) ?h ! clamp_index j ?w)) ?R)"
      by simp
    also have "\<dots> = (\<Sum>i = int r - radius..int r + radius. \<Sum>j = int c - radius..int c + radius.
               ch (g ! clamp_index i ?h ! clamp_index j ?w))"
      using sum_list_range_py_shift[of "\<lambda>i. \<Sum>j = int c - radius..int c + radius.
               ch (g ! clamp_index i ?h ! clamp_index j ?w)" "int r" "- radius" "radius + 1"]
      by simp
    finally show ?thesis by (simp add: neighbourhood_sum_def)
  qed
  have count: "sum_list (map (\<lambda>i. sum_list (map (\<lambda>j. 1::int) ?R)) ?R)
               = int (nat (2 * radius + 1)) * int (nat (2 * radius + 1))"
    by (simp add: sum_list_triv length_range_py)
  have "sum_totals (\<lambda>i. sum_totals (\<lambda>j. pixel_totals (?P i j)) ?R) ?R
        = (neighbourhood_sum red g radius r c, neighbourhood_sum green g radius r c,
           neighbourhood_sum blue g radius r c, neighbourhood_sum alpha g radius r c,
           int (nat (2 * radius + 1)) * int (nat (2 * radius + 1)))"
    unfolding sum_totals_def pixel_totals_def fst_conv snd_conv
    using sums[of red] sums[of green] sums[of blue] sums[of alpha] count by simp
  then show ?thesis
    unfolding blur_totals_def using all by (simp add: add_totals_def)
qed

lemma blur_pixel_well_formed:
  assumes wf: "well_formed g" and r: "r < length g" and c: "c < length (hd g)"
    and radius: "0 \<le> radius"
  shows "blur_pixel g (int (length g)) (int (length (hd g))) radius (int r) (int c)
         = Inr (blur_spec g radius r c)"
proof -
  have n: "int (nat (2 * radius + 1)) * int (nat (2 * radius + 1)) = (2 * radius + 1)\<^sup>2"
    using radius by (simp add: power2_eq_square)
  have nz: "(2 * radius + 1)\<^sup>2 \<noteq> 0" using radius by simp
  show ?thesis
    unfolding blur_pixel_def blur_totals_well_formed[OF wf r c] n
    using nz by (simp add: averages_def floordiv_def ebind_def RGB_def blur_spec_def)
qed

lemma blur_pixel_negative_radius:
  assumes wf: "well_formed g" and r: "r < length g" and c: "c < length (hd g)"
    and radius: "radius < 0"
  shows "blur_pixel g (int (length g)) (int (length (hd g))) radius (int r) (int c)
         = Inl ZeroDivisionError"
proof -
  have n: "int (nat (2 * radius + 1)) * int (nat (2 * radius + 1)) = 0"
    using radius by simp
  show ?thesis
    unfolding blur_pixel_def blur_totals_well_formed[OF wf r c] n
    by (simp add: averages_def floordiv_def ebind_def)
qed

lemma replicate_grid_nth:
  "r < h \<Longrightarrow> replicate h (replicate w z) ! r = replicate w z"
  by simp

lemma blur_well_formed:
  assumes wf: "well_formed g" and radius: "0 \<le> radius"
  shows "blur g radius =
         (Returned True, map (\<lambda>r. map (\<lambda>c. blur_spec g radius r c) [0..<length (hd g)]) [0..<length g])"
proof -
  let ?h = "length g" and ?w = "length (hd g)"
  let ?bl0 = "replicate ?h (replicate ?w (RGB 0 0 0 0))"
  let ?fill = "\<lambda>r c. stmt (\<lambda>bl. ebind (blur_pixel g (int ?h) (int ?w) radius (int r) (int c))
                                   (\<lambda>p. store_cell (int r) (int c) p bl))"
  have ne: "g \<noteq> []" using wf unfolding well_formed_def by blast
  have rows: "\<And>r. r < ?h \<Longrightarrow> length (g ! r) = ?w" using wf by (simp add: well_formed_row)
  have "\<exists>bl. for_in [0..<?h] (\<lambda>r. for_in [0..<?w] (?fill r)) ?bl0 = (None, bl) \<and> same_shape ?bl0 bl \<and>
           (\<forall>r' c'. r' < length ?bl0 \<longrightarrow> c' < length (?bl0 ! r') \<longrightarrow>
              bl ! r' ! c' = (if r' \<in> set [0..<?h] \<and> c' \<in> set [0..<?w]
                              then (\<lambda>r c p. blur_spec g radius r c) r' c' (?bl0 ! r' ! c')
                              else ?bl0 ! r' ! c'))"
  proof (rule grid_loop)
    show "distinct [0..<?h]" "distinct [0..<?w]" by simp_all
    show "\<forall>r\<in>set [0..<?h]. r < length ?bl0 \<and> (\<forall>c\<in>set [0..<?w]. c < length (?bl0 ! r))"
      by simp
    fix r c im
    assume r: "r \<in> set [0..<?h]" and c: "c \<in> set [0..<?w]" and sh: "same_shape ?bl0 im"
    have r': "r < ?h" and c': "c < ?w" using r c by auto
    have px: "blur_pixel g (int ?h) (int ?w) radius (int r) (int c) = Inr (blur_spec g radius r c)"
      by (rule blur_pixel_well_formed[OF wf r' c' radius])
    have im: "r < length im" "c < length (im ! r)"
      using sh r' c' by (simp_all add: same_shape_def)
    have st: "store_cell (int r) (int c) p im = Inr (put r c p im)" for p
      by (rule store_cell_nat[OF im])
    show "?fill r c im = (None, put r c (blur_spec g radius r c) im)"
      by (simp add: stmt_def px st ebind_def)
  qed
  then obtain bl where fill: "for_in [0..<?h] (\<lambda>r. for_in [0..<?w] (?fill r)) ?bl0 = (None, bl)"
    and shb: "same_shape ?bl0 bl"
    and nthb0: "\<forall>r' c'. r' < length ?bl0 \<longrightarrow> c' < length (?bl0 ! r') \<longrightarrow>
              bl ! r' ! c' = (if r' \<in> set [0..<?h] \<and> c' \<in> set [0..<?w]
                              then blur_spec g radius r' c' else ?bl0 ! r' ! c')"
    by blast
  have nthb: "bl ! r ! c = blur_spec g radius r c" if "r < ?h" "c < ?w" for r c
    using nthb0 that by simp
  have lenb: "length bl = ?h" "\<And>r. r < ?h \<Longrightarrow> length (bl ! r) = ?w"
    using shb by (simp_all add: same_shape_def)
  let ?copy = "\<lambda>r c. stmt (\<lambda>im. ebind (load_cell bl (int r) (int c))
                                   (\<lambda>p. store_cell (int r) (int c) p im))"
  have "\<exists>g'. for_in [0..<?h] (\<lambda>r. for_in [0..<?w] (?copy r)) g = (None, g') \<and> same_shape g g' \<and>
           (\<forall>r' c'. r' < length g \<longrightarrow> c' < length (g ! r') \<longrightarrow>
              g' ! r' ! c' = (if r' \<in> set [0..<?h] \<and> c' \<in> set [0..<?w]
                              then (\<lambda>r c p. bl ! r ! c) r' c' (g ! r' ! c') else g ! r' ! c'))"
  proof (rule grid_loop)
    show "distinct [0..<?h]" "distinct [0..<?w]" by simp_all
    show "\<forall>r\<in>set [0..<?h]. r < ?h \<and> (\<forall>c\<in>set [0..<?w]. c < length (g ! r))"
      using rows by simp
    fix r c im
    assume r: "r \<in> set [0..<?h]" and c: "c \<in> set [0..<?w]" and sh: "same_shape g im"
    have r': "r < ?h" and c': "c < ?w" using r c by auto
    have ld: "load_cell bl (int r) (int c) = Inr (bl ! r ! c)"
      using r' c' lenb by (intro load_cell_nat) simp_all
    have im: "r < length im" "c < length (im ! r)"
      using sh r' c' rows by (simp_all add: same_shape_def)
    have st: "store_cell (int r) (int c) p im = Inr (put r c p im)" for p
      by (rule store_cell_nat[OF im])
    show "?copy r c im = (None, put r c (bl ! r ! c) im)"
      by (simp add: stmt_def ld st ebind_def)
  qed
  then obtain g' where copy: "for_in [0..<?h] (\<lambda>r. for_in [0..<?w] (?copy r)) g = (None, g')"
    and sh: "same_shape g g'"
    and nth0: "\<forall>r' c'. r' < length g \<longrightarrow> c' < length (g ! r') \<longrightarrow>
              g' ! r' ! c' = (if r' \<in> set [0..<?h] \<and> c' \<in> set [0..<?w]
                              then bl ! r' ! c' else g ! r' ! c')"
    by blast
  have nth: "g' ! r ! c = blur_spec g radius r c" if "r < ?h" "c < ?w" for r c
    using nth0 that rows nthb by simp
  have len: "length g' = ?h" "\<And>r. r < ?h \<Longrightarrow> length (g' ! r) = ?w"
    using sh rows by (simp_all add: same_shape_def)
  let ?res = "map (\<lambda>r. map (\<lambda>c. blur_spec g radius r c) [0..<?w]) [0..<?h]"
  have "g' = ?res"
  proof (rule grid_eqI)
    show "length g' = length ?res" using len by simp
    fix r assume "r < length ?res"
    then have r: "r < ?h" by simp
    show "length (g' ! r) = length (?res ! r)" using len r by simp
    fix c assume "c < length (?res ! r)"
    then have c: "c < ?w" using r by simp
    show "g' ! r ! c = ?res ! r ! c" using nth[OF r c] r c by simp
  qed
  moreover have "blur g radius =
      (case for_in [0..<?h] (\<lambda>r. for_in [0..<?w] (?fill r)) ?bl0 of
         (Some e, bl) \<Rightarrow> (Raised e, g)
       | (None, bl) \<Rightarrow> finish (for_in [0..<?h] (\<lambda>r. for_in [0..<?w]
             (\<lambda>c. stmt (\<lambda>im. ebind (load_cell bl (int r) (int c))
                                   (\<lambda>p. store_cell (int r) (int c) p im)))) g))"
    using ne by (simp add: blur_def getitem_0 range_py_0 for_in_map Let_def
        cong: prod.case_cong option.case_cong)
  ultimately show ?thesis
    using fill copy by (simp add: finish_def)
qed

lemma blur_negative_radius:
  assumes wf: "well_formed g" and radius: "radius < 0"
  shows "blur g radius = (Raised ZeroDivisionError, g)"
proof -
  let ?h = "length g" and ?w = "length (hd g)"
  let ?bl0 = "replicate ?h (replicate ?w (RGB 0 0 0 0))"
  let ?fill = "\<lambda>r c. stmt (\<lambda>bl. ebind (blur_pixel g (int ?h) (int ?w) radius (int r) (int c))
                                   (\<lambda>p. store_cell (int r) (int c) p bl))"
  have ne: "g \<noteq> []" using wf unfolding well_formed_def by blast
  have pos: "0 < ?h" "0 < ?w" using well_formed_pos[OF wf] by auto
  have first: "?fill 0 0 ?bl0 = (Some ZeroDivisionError, ?bl0)"
    using blur_pixel_negative_radius[OF wf pos radius] by (simp add: stmt_def ebind_def)
  have hs: "[0..<?h] = 0 # [1..<?h]" and ws: "[0..<?w] = 0 # [1..<?w]"
    using pos by (simp_all add: upt_conv_Cons)
  have "for_in [0..<?w] (?fill 0) ?bl0 = (Some ZeroDivisionError, ?bl0)"
    unfolding ws using first by simp
  then have "for_in [0..<?h] (\<lambda>r. for_in [0..<?w] (?fill r)) ?bl0 = (Some ZeroDivisionError, ?bl0)"
    unfolding hs by simp
  moreover have "blur g radius =
      (case for_in [0..<?h] (\<lambda>r. for_in [0..<?w] (?fill r)) ?bl0 of
         (Some e, bl) \<Rightarrow> (Raised e, g)
       | (None, bl) \<Rightarrow> finish (for_in [0..<?h] (\<lambda>r. for_in [0..<?w]
             (\<lambda>c. stmt (\<lambda>im. ebind (load_cell bl (int r) (int c))
                                   (\<lambda>p. store_cell (int r) (int c) p im)))) g))"
    using ne by (simp add: blur_def getitem_0 range_py_0 for_in_map Let_def
        cong: prod.case_cong option.case_cong)
  ultimately show ?thesis by simp
qed

lemma blur_spec_zero:
  assumes "r < length g" "c < length (hd g)"
  shows "blur_spec g 0 r c = g ! r ! c"
proof -
  have "clamp_index (int r) (length g) = r" "clamp_index (int c) (length (hd g)) = c"
    using assms by (auto simp: clamp_index_def)
  then have "neighbourhood_sum ch g 0 r c = ch (g ! r ! c)" for ch
    by (simp add: neighbourhood_sum_def)
  then show ?thesis by (simp add: blur_spec_def)
qed

text \<open>
  C1: for every well-formed grid and every radius > 0, blur returns True and leaves the
  grid of the same dimensions in which the pixel at \<open>(r, c)\<close> holds, for each of the four
  channels, the sum of that channel of the original grid over the neighbourhood
  \<open>[r - radius, r + radius] \<times> [c - radius, c + radius]\<close>, each coordinate clamped to the
  nearest row or column, divided (floor division) by \<open>(2 * radius + 1)\<^sup>2\<close>.
\<close>

theorem blur_neighbourhood_average:
  assumes "well_formed g" and "0 < radius"
  shows "blur g radius =
         (Returned True, map (\<lambda>r. map (\<lambda>c. blur_spec g radius r c) [0..<length (hd g)]) [0..<length g])"
  using assms by (intro blur_well_formed) simp_all

theorem blur_neighbourhood_average_witness:
  "well_formed sample_grid \<and> (0::int) < 1 \<and>
   blur sample_grid 1 =
     (Returned True, map (\<lambda>r. map (\<lambda>c. blur_spec sample_grid 1 r c) [0..<length (hd sample_grid)])
                         [0..<length sample_grid])"
  using blur_neighbourhood_average[of sample_grid 1] well_formed_sample_grid by simp

text \<open>
  C10: for every well-formed grid, blur with radius 0 raises nothing, returns True and
  leaves every pixel with its original channel values.
\<close>

theorem blur_radius_zero:
  assumes wf: "well_formed g"
  shows "blur g 0 = (Returned True, g)"
proof -
  let ?h = "length g" and ?w = "length (hd g)"
  have "map (\<lambda>r. map (\<lambda>c. blur_spec g 0 r c) [0..<?w]) [0..<?h] = g"
  proof (rule grid_eqI)
    show "length (map (\<lambda>r. map (\<lambda>c. blur_spec g 0 r c) [0..<?w]) [0..<?h]) = length g" by simp
    fix r assume r: "r < length g"
    show "length (map (\<lambda>r. map (\<lambda>c. blur_spec g 0 r c) [0..<?w]) [0..<?h] ! r) = length (g ! r)"
      using r well_formed_row[OF wf r] by simp
    fix c assume "c < length (g ! r)"
    then have c: "c < ?w" using well_formed_row[OF wf r] by simp
    show "map (\<lambda>r. map (\<lambda>c. blur_spec g 0 r c) [0..<?w]) [0..<?h] ! r ! c = g ! r ! c"
      using r c by (simp add: blur_spec_zero)
  qed
  then show ?thesis using blur_well_formed[OF wf, of 0] by simp
qed

theorem blur_radius_zero_witness:
  "well_formed sample_grid \<and> blur sample_grid 0 = (Returned True, sample_grid)"
  using blur_radius_zero[of sample_grid] well_formed_sample_grid by simp

section \<open>Properties of mono\<close>

lemma brightness_scenario: "brightness (RGB 200 100 50 255) = 125"
  by (simp add: brightness_def RGB_def float_eval)

lemma brightness_ones: "brightness (RGB 1 1 1 255) = 0"
  by (simp add: brightness_def RGB_def float_eval)

lemma brightness_sepia_scenario: "brightness (RGB 125 75 50 255) = 87"
  by (simp add: brightness_def RGB_def float_eval)

lemma sepia_channels_125:
  "trunc (fmul (rnd (3 / 5)) 125) = 75" "trunc (fmul (rnd (2 / 5)) 125) = 50"
  by (simp_all add: float_eval)

lemma sepia_channels_87:
  "trunc (fmul (rnd (3 / 5)) 87) = 52" "trunc (fmul (rnd (2 / 5)) 87) = 34"
  by (simp_all add: float_eval)

lemma mono_pixel_scenario_grey: "mono_pixel False (RGB 200 100 50 255) = RGB 125 125 125 255"
proof -
  have "mono_pixel False (RGB 200 100 50 255)
        = (RGB 200 100 50 255)\<lparr>red := 125, green := 125, blue := 125\<rparr>"
    by (simp add: mono_pixel_def Let_def brightness_scenario)
  then show ?thesis by (simp add: RGB_def)
qed

lemma mono_pixel_scenario_sepia: "mono_pixel True (RGB 200 100 50 255) = RGB 125 75 50 255"
proof -
  have "mono_pixel True (RGB 200 100 50 255)
        = (RGB 200 100 50 255)\<lparr>red := 125, green := 125, blue := 125, green := 75, blue := 50\<rparr>"
    by (simp add: mono_pixel_def Let_def brightness_scenario sepia_channels_125)
  then show ?thesis by (simp add: RGB_def)
qed

lemma mono_pixel_sepia_again: "mono_pixel True (RGB 125 75 50 255) = RGB 87 52 34 255"
proof -
  have "mono_pixel True (RGB 125 75 50 255)
        = (RGB 125 75 50 255)\<lparr>red := 87, green := 87, blue := 87, green := 52, blue := 34\<rparr>"
    by (simp add: mono_pixel_def Let_def brightness_sepia_scenario sepia_channels_87)
  then show ?thesis by (simp add: RGB_def)
qed

lemma brightness_spec_ones: "brightness_spec (RGB 1 1 1 255) = 1"
  by (simp add: brightness_spec_def RGB_def)

lemma brightness_spec_scenario: "brightness_spec (RGB 200 100 50 255) = 125"
  by (simp add: brightness_spec_def RGB_def)

lemma mono_pixel_alpha: "alpha (mono_pixel sepia p) = alpha p"
  by (simp add: mono_pixel_def Let_def)

text \<open>
  The scenario of the specification holds: on the pixel (200, 100, 50, 255) the brightness
  is 125, the greyscale result is (125, 125, 125, 255) and the sepia result is
  (125, 75, 50, 255).
\<close>

lemma mono_scenario:
  "mono [[RGB 200 100 50 255]] False = (Returned True, [[RGB 125 125 125 255]]) \<and>
   mono [[RGB 200 100 50 255]] True = (Returned True, [[RGB 125 75 50 255]])"
  by (simp add: mono_def mono_pixel_scenario_grey mono_pixel_scenario_sepia)

text \<open>
  C5: the brightness that mono computes is not always
  \<open>floor(0.3 * red + 0.6 * green + 0.1 * blue)\<close>. On the grey pixel (1, 1, 1, 255) that
  formula gives 1, but the floating-point sum \<open>0.3 * 1 + 0.6 * 1 + 0.1 * 1\<close> is the float
  just below 1, its integer part is 0, and mono turns the pixel into (0, 0, 0, 255).
\<close>

theorem mono_brightness_rounding:
  "brightness_spec (RGB 1 1 1 255) = 1 \<and> brightness (RGB 1 1 1 255) = 0 \<and>
   mono [[RGB 1 1 1 255]] False = (Returned True, [[RGB 0 0 0 255]])"
proof -
  have "mono_pixel False (RGB 1 1 1 255) = (RGB 1 1 1 255)\<lparr>red := 0, green := 0, blue := 0\<rparr>"
    by (simp add: mono_pixel_def Let_def brightness_ones)
  also have "\<dots> = RGB 0 0 0 255" by (simp add: RGB_def)
  finally have "mono [[RGB 1 1 1 255]] False = (Returned True, [[RGB 0 0 0 255]])"
    by (simp add: mono_def)
  then show ?thesis using brightness_spec_ones brightness_ones by blast
qed

text \<open>
  Applying mono with \<open>sepia = True\<close> twice to the pixel (200, 100, 50, 255) gives
  (87, 52, 34, 255), not the (125, 75, 50, 255) of one application.
\<close>

theorem mono_sepia_not_idempotent:
  "snd (mono (snd (mono [[RGB 200 100 50 255]] True)) True) \<noteq> snd (mono [[RGB 200 100 50 255]] True)"
proof -
  have "mono_pixel True (mono_pixel True (RGB 200 100 50 255)) = RGB 87 52 34 255"
    by (simp add: mono_pixel_scenario_sepia mono_pixel_sepia_again)
  moreover have "RGB 87 52 34 255 \<noteq> RGB 125 75 50 255" by (simp add: RGB_def)
  ultimately show ?thesis by (simp add: mono_def mono_pixel_scenario_sepia)
qed

text \<open>The grey levels that the brightness computation returns unchanged.\<close>

lemma grey_levels_0_13:
  "grey_brightness 0 = 0 \<and> grey_brightness 3 = 3 \<and> grey_brightness 5 = 5 \<and>
   grey_brightness 6 = 6 \<and> grey_brightness 7 = 7 \<and> grey_brightness 9 = 9 \<and>
   grey_brightness 10 = 10 \<and> grey_brightness 12 = 12 \<and> grey_brightness 13 = 13"
  by (simp add: grey_brightness_def brightness_def RGB_def float_eval)

lemma grey_levels_14_24:
  "grey_brightness 14 = 14 \<and> grey_brightness 15 = 15 \<and> grey_brightness 17 = 17 \<and>
   grey_brightness 18 = 18 \<and> grey_brightness 19 = 19 \<and> grey_brightness 20 = 20 \<and>
   grey_brightness 21 = 21 \<and> grey_brightness 23 = 23 \<and> grey_brightness 24 = 24"
  by (simp add: grey_brightness_def brightness_def RGB_def float_eval)

lemma grey_levels_25_35:
  "grey_brightness 25 = 25 \<and> grey_brightness 26 = 26 \<and> grey_brightness 28 = 28 \<and>
   grey_brightness 29 = 29 \<and> grey_brightness 30 = 30 \<and> grey_brightness 31 = 31 \<and>
   grey_brightness 33 = 33 \<and> grey_brightness 34 = 34 \<and> grey_brightness 35 = 35"
  by (simp add: grey_brightness_def brightness_def RGB_def float_eval)

lemma grey_levels_36_46:
  "grey_brightness 36 = 36 \<and> grey_brightness 37 = 37 \<and> grey_brightness 38 = 38 \<and>
   grey_brightness 40 = 40 \<and> grey_brightness 41 = 41 \<and> grey_brightness 42 = 42 \<and>
   grey_brightness 43 = 43 \<and> grey_brightness 45 = 45 \<and> grey_brightness 46 = 46"
  by (simp add: grey_brightness_def brightness_def RGB_def float_eval)

lemma grey_levels_47_57:
  "grey_brightness 47 = 47 \<and> grey_brightness 48 = 48 \<and> grey_brightness 50 = 50 \<and>
   grey_brightness 51 = 51 \<and> grey_brightness 52 = 52 \<and> grey_brightness 53 = 53 \<and>
   grey_brightness 55 = 55 \<and> grey_brightness 56 = 56 \<and> grey_brightness 57 = 57"
  by (simp add: grey_brightness_def brightness_def RGB_def float_eval)

lemma grey_levels_58_68:
  "grey_brightness 58 = 58 \<and> grey_brightness 60 = 60 \<and> grey_brightness 61 = 61 \<and>
   grey_brightness 62 = 62 \<and> grey_brightness 63 = 63 \<and> grey_brightness 65 = 65 \<and>
   grey_brightness 66 = 66 \<and> grey_brightness 67 = 67 \<and> grey_brightness 68 = 68"
  by (simp add: grey_brightness_def brightness_def RGB_def float_eval)

lemma grey_levels_69_79:
  "grey_brightness 69 = 69 \<and> grey_brightness 70 = 70 \<and> grey_brightness 71 = 71 \<and>
   grey_brightness 72 = 72 \<and> grey_brightness 74 = 74 \<and> grey_brightness 75 = 75 \<and>
   grey_brightness 76 = 76 \<and> grey_brightness 77 = 77 \<and> grey_brightness 79 = 79"
  by (simp add: grey_brightness_def brightness_def RGB_def float_eval)

lemma grey_levels_80_90:
  "grey_brightness 80 = 80 \<and> grey_brightness 81 = 81 \<and> grey_brightness 82 = 82 \<and>
   grey_brightness 84 = 84 \<and> grey_brightness 85 = 85 \<and> grey_brightness 86 = 86 \<and>
   grey_brightness 87 = 87 \<and> grey_brightness 89 = 89 \<and> grey_brightness 90 = 90"
  by (simp add: grey_brightness_def brightness_def RGB_def float_eval)

lemma grey_levels_91_101:
  "grey_brightness 91 = 91 \<and> grey_brightness 92 = 92 \<and> grey_brightness 94 = 94 \<and>
   grey_brightness 95 = 95 \<and> grey_brightness 96 = 96 \<and> grey_brightness 97 = 97 \<and>
   grey_brightness 99 = 99 \<and> grey_brightness 100 = 100 \<and> grey_brightness 101 = 101"
  by (simp add: grey_brightness_def brightness_def RGB_def float_eval)

lemma grey_levels_102_112:
  "grey_brightness 102 = 102 \<and> grey_brightness 104 = 104 \<and>
   grey_brightness 105 = 105 \<and> grey_brightness 106 = 106 \<and>
   grey_brightness 107 = 107 \<and> grey_brightness 109 = 109 \<and>
   grey_brightness 110 = 110 \<and> grey_brightness 111 = 111 \<and> grey_brightness 112 = 112"
  by (simp add: grey_brightness_def brightness_def RGB_def float_eval)

lemma grey_levels_114_124:
  "grey_brightness 114 = 114 \<and> grey_brightness 115 = 115 \<and>
   grey_brightness 116 = 116 \<and> grey_brightness 117 = 117 \<and>
   grey_brightness 119 = 119 \<and> grey_brightness 120 = 120 \<and>
   grey_brightness 121 = 121 \<and> grey_brightness 122 = 122 \<and> grey_brightness 124 = 124"
  by (simp add: grey_brightness_def brightness_def RGB_def float_eval)

lemma grey_levels_125_134:
  "grey_brightness 125 = 125 \<and> grey_brightness 126 = 126 \<and>
   grey_brightness 127 = 127 \<and> grey_brightness 129 = 129 \<and>
   grey_brightness 130 = 130 \<and> grey_brightness 131 = 131 \<and>
   grey_brightness 132 = 132 \<and> grey_brightness 133 = 133 \<and> grey_brightness 134 = 134"
  by (simp add: grey_brightness_def brightness_def RGB_def float_eval)

lemma grey_levels_135_143:
  "grey_brightness 135 = 135 \<and> grey_brightness 136 = 136 \<and>
   grey_brightness 137 = 137 \<and> grey_brightness 138 = 138 \<and>
   grey_brightness 139 = 139 \<and> grey_brightness 140 = 140 \<and>
   grey_brightness 141 = 141 \<and> grey_brightness 142 = 142 \<and> grey_brightness 143 = 143"
  by (simp add: grey_brightness_def brightness_def RGB_def float_eval)

lemma grey_levels_144_154:
  "grey_brightness 144 = 144 \<and> grey_brightness 145 = 145 \<and>
   grey_brightness 147 = 147 \<and> grey_brightness 148 = 148 \<and>
   grey_brightness 149 = 149 \<and> grey_brightness 150 = 150 \<and>
   grey_brightness 152 = 152 \<and> grey_brightness 153 = 153 \<and> grey_brightness 154 = 154"
  by (simp add: grey_brightness_def brightness_def RGB_def float_eval)

lemma grey_levels_155_165:
  "grey_brightness 155 = 155 \<and> grey_brightness 157 = 157 \<and>
   grey_brightness 158 = 158 \<and> grey_brightness 159 = 159 \<and>
   grey_brightness 160 = 160 \<and> grey_brightness 162 = 162 \<and>
   grey_brightness 163 = 163 \<and> grey_brightness 164 = 164 \<and> grey_brightness 165 = 165"
  by (simp add: grey_brightness_def brightness_def RGB_def float_eval)

lemma grey_levels_167_177:
  "grey_brightness 167 = 167 \<and> grey_brightness 168 = 168 \<and>
   grey_brightness 169 = 169 \<and> grey_brightness 170 = 170 \<and>
   grey_brightness 172 = 172 \<and> grey_brightness 173 = 173 \<and>
   grey_brightness 174 = 174 \<and> grey_brightness 175 = 175 \<and> grey_brightness 177 = 177"
  by (simp add: grey_brightness_def brightness_def RGB_def float_eval)

lemma grey_levels_178_188:
  "grey_brightness 178 = 178 \<and> grey_brightness 179 = 179 \<and>
   grey_brightness 180 = 180 \<and> grey_brightness 182 = 182 \<and>
   grey_brightness 183 = 183 \<and> grey_brightness 184 = 184 \<and>
   grey_brightness 185 = 185 \<and> grey_brightness 187 = 187 \<and> grey_brightness 188 = 188"
  by (simp add: grey_brightness_def brightness_def RGB_def float_eval)

lemma grey_levels_189_199:
  "grey_brightness 189 = 189 \<and> grey_brightness 190 = 190 \<and>
   grey_brightness 192 = 192 \<and> grey_brightness 193 = 193 \<and>
   grey_brightness 194 = 194 \<and> grey_brightness 195 = 195 \<and>
   grey_brightness 197 = 197 \<and> grey_brightness 198 = 198 \<and> grey_brightness 199 = 199"
  by (simp add: grey_brightness_def brightness_def RGB_def float_eval)

lemma grey_levels_200_210:
  "grey_brightness 200 = 200 \<and> grey_brightness 202 = 202 \<and>
   grey_brightness 203 = 203 \<and> grey_brightness 204 = 204 \<and>
   grey_brightness 205 = 205 \<and> grey_brightness 207 = 207 \<and>
   grey_brightness 208 = 208 \<and> grey_brightness 209 = 209 \<and> grey_brightness 210 = 210"
  by (simp add: grey_brightness_def brightness_def RGB_def float_eval)

lemma grey_levels_212_222:
  "grey_brightness 212 = 212 \<and> grey_brightness 213 = 213 \<and>
   grey_brightness 214 = 214 \<and> grey_brightness 215 = 215 \<and>
   grey_brightness 217 = 217 \<and> grey_brightness 218 = 218 \<and>
   grey_brightness 219 = 219 \<and> grey_brightness 220 = 220 \<and> grey_brightness 222 = 222"
  by (simp add: grey_brightness_def brightness_def RGB_def float_eval)

lemma grey_levels_223_233:
  "grey_brightness 223 = 223 \<and> grey_brightness 224 = 224 \<and>
   grey_brightness 225 = 225 \<and> grey_brightness 227 = 227 \<and>
   grey_brightness 228 = 228 \<and> grey_brightness 229 = 229 \<and>
   grey_brightness 230 = 230 \<and> grey_brightness 232 = 232 \<and> grey_brightness 233 = 233"
  by (simp add: grey_brightness_def brightness_def RGB_def float_eval)

lemma grey_levels_234_244:
  "grey_brightness 234 = 234 \<and> grey_brightness 235 = 235 \<and>
   grey_brightness 237 = 237 \<and> grey_brightness 238 = 238 \<and>
   grey_brightness 239 = 239 \<and> grey_brightness 240 = 240 \<and>
   grey_brightness 242 = 242 \<and> grey_brightness 243 = 243 \<and> grey_brightness 244 = 244"
  by (simp add: grey_brightness_def brightness_def RGB_def float_eval)

lemma grey_levels_245_255:
  "grey_brightness 245 = 245 \<and> grey_brightness 247 = 247 \<and>
   grey_brightness 248 = 248 \<and> grey_brightness 249 = 249 \<and>
   grey_brightness 250 = 250 \<and> grey_brightness 252 = 252 \<and>
   grey_brightness 253 = 253 \<and> grey_brightness 254 = 254 \<and> grey_brightness 255 = 255"
  by (simp add: grey_brightness_def brightness_def RGB_def float_eval)

lemma stable_levels_fixed: "list_all (\<lambda>v. grey_brightness v = v) stable_levels"
  unfolding stable_levels_def
  using
    grey_levels_0_13 grey_levels_14_24 grey_levels_25_35 grey_levels_36_46
    grey_levels_47_57 grey_levels_58_68 grey_levels_69_79 grey_levels_80_90
    grey_levels_91_101 grey_levels_102_112 grey_levels_114_124 grey_levels_125_134
    grey_levels_135_143 grey_levels_144_154 grey_levels_155_165 grey_levels_167_177
    grey_levels_178_188 grey_levels_189_199 grey_levels_200_210 grey_levels_212_222
    grey_levels_223_233 grey_levels_234_244 grey_levels_245_255
  by simp

lemma stable_levels_le: "v \<in> set stable_levels \<Longrightarrow> v \<le> 255"
  by (auto simp: stable_levels_def)

lemma mono_pixel_grey_twice:
  assumes "brightness p \<in> set stable_levels"
  shows "mono_pixel False (mono_pixel False p) = mono_pixel False p"
proof -
  let ?b = "brightness p"
  have le: "?b \<le> 255" using assms by (rule stable_levels_le)
  have fixed: "grey_brightness ?b = ?b"
    using stable_levels_fixed assms by (simp add: list_all_iff)
  have one: "mono_pixel False p = p\<lparr>red := ?b, green := ?b, blue := ?b\<rparr>"
    using le by (simp add: mono_pixel_def Let_def)
  have "brightness (p\<lparr>red := ?b, green := ?b, blue := ?b\<rparr>) = grey_brightness ?b"
    by (simp add: grey_brightness_def brightness_def RGB_def)
  then have b2: "brightness (mono_pixel False p) = ?b"
    using one fixed by simp
  show ?thesis
    unfolding mono_pixel_def[of False "mono_pixel False p"] b2 Let_def
    using le by (simp add: one)
qed

text \<open>
  The rounding of C5 also shows when greyscale mono is applied twice: (0, 2, 0, 255)
  becomes (1, 1, 1, 255), and that pixel becomes (0, 0, 0, 255).
\<close>

lemma mono_greyscale_rounding_example:
  "mono [[RGB 0 2 0 255]] False = (Returned True, [[RGB 1 1 1 255]]) \<and>
   mono [[RGB 1 1 1 255]] False = (Returned True, [[RGB 0 0 0 255]])"
proof -
  have b: "brightness (RGB 0 2 0 255) = 1"
    by (simp add: brightness_def RGB_def float_eval)
  have "mono_pixel False (RGB 0 2 0 255) = (RGB 0 2 0 255)\<lparr>red := 1, green := 1, blue := 1\<rparr>"
    by (simp add: mono_pixel_def Let_def b)
  then have one: "mono_pixel False (RGB 0 2 0 255) = RGB 1 1 1 255" by (simp add: RGB_def)
  have "mono_pixel False (RGB 1 1 1 255) = (RGB 1 1 1 255)\<lparr>red := 0, green := 0, blue := 0\<rparr>"
    by (simp add: mono_pixel_def Let_def brightness_ones)
  then have two: "mono_pixel False (RGB 1 1 1 255) = RGB 0 0 0 255" by (simp add: RGB_def)
  show ?thesis by (simp add: mono_def one two)
qed

text \<open>
  C8 (amended): mono with \<open>sepia = False\<close> applied twice yields the same grid as applied
  once, for every grid in which the brightness computed for each pixel is one of the 207
  grey levels of \<open>stable_levels\<close>, that is a level from 0 to 255 other than 1, 2, 4, 8,
  11, 16, 22, 27, 32, 39, 44, 49, 54, 59, 64, 73, 78, 83, 88, 93, 98, 103, 108, 113, 118,
  123, 128, 146, 151, 156, 161, 166, 171, 176, 181, 186, 191, 196, 201, 206, 211, 216,
  221, 226, 231, 236, 241, 246 and 251.
\<close>

theorem mono_greyscale_idempotent:
  assumes "\<forall>row \<in> set g. \<forall>p \<in> set row. brightness p \<in> set stable_levels"
  shows "mono (snd (mono g False)) False = mono g False"
proof -
  have "map (mono_pixel False) (map (mono_pixel False) row) = map (mono_pixel False) row"
    if "row \<in> set g" for row
    using assms that by (simp add: mono_pixel_grey_twice)
  then have "map (map (mono_pixel False)) (map (map (mono_pixel False)) g) = map (map (mono_pixel False)) g"
    by simp
  then show ?thesis by (simp add: mono_def)
qed

theorem mono_greyscale_idempotent_witness:
  "brightness (RGB 200 100 50 255) \<in> set stable_levels \<and>
   brightness (RGB 10 20 30 100) \<in> set stable_levels \<and>
   brightness (RGB 255 255 255 0) \<in> set stable_levels \<and>
   brightness (RGB 7 8 9 10) \<in> set stable_levels \<and>
   mono (snd (mono [[RGB 200 100 50 255, RGB 10 20 30 100],
                    [RGB 255 255 255 0, RGB 7 8 9 10]] False)) False
   = mono [[RGB 200 100 50 255, RGB 10 20 30 100], [RGB 255 255 255 0, RGB 7 8 9 10]] False"
proof -
  have b: "brightness (RGB 10 20 30 100) = 18" "brightness (RGB 255 255 255 0) = 255"
    "brightness (RGB 7 8 9 10) = 7"
    by (simp_all add: brightness_def RGB_def float_eval)
  have m: "(125::int) \<in> set stable_levels" "(18::int) \<in> set stable_levels"
    "(255::int) \<in> set stable_levels" "(7::int) \<in> set stable_levels"
    by (simp_all add: stable_levels_def)
  have h: "\<forall>row \<in> set [[RGB 200 100 50 255, RGB 10 20 30 100], [RGB 255 255 255 0, RGB 7 8 9 10]].
             \<forall>p \<in> set row. brightness p \<in> set stable_levels"
    using m by (simp add: brightness_scenario b)
  show ?thesis
    using mono_greyscale_idempotent[OF h] m by (simp add: brightness_scenario b)
qed

end
